theory Spec2Isabelle
  imports Main "HOL-Library.Word"
begin

unbundle bit_operations_syntax

section \<open>Strings\<close>

text \<open>
  File names and rule patterns are Python \<open>str\<close> values, modelled as \<open>string\<close> (a list
  of characters).  The model reads them as ASCII text: Python's \<open>str.isdigit\<close> also
  accepts a few non-ASCII digit characters, which are not represented here.
\<close>

text \<open>\<open>str.split(sep)\<close> for a one-character separator: the result is never empty.\<close>

fun split_on :: "char \<Rightarrow> string \<Rightarrow> string list" where
  "split_on c [] = [[]]"
| "split_on c (x # xs) =
     (if x = c then [] # split_on c xs
      else (case split_on c xs of
              [] \<Rightarrow> [[x]]
            | y # ys \<Rightarrow> (x # y) # ys))"

text \<open>\<open>sep.join(parts)\<close>.\<close>

fun join_with :: "string \<Rightarrow> string list \<Rightarrow> string" where
  "join_with sep [] = []"
| "join_with sep [x] = x"
| "join_with sep (x # y # ys) = x @ sep @ join_with sep (y # ys)"

definition char_isdigit :: "char \<Rightarrow> bool" where
  "char_isdigit c = (c \<in> set ''0123456789'')"

text \<open>\<open>str.isdigit()\<close>: every character is a digit and there is at least one.\<close>

definition isdigit :: "string \<Rightarrow> bool" where
  "isdigit s = (s \<noteq> [] \<and> list_all char_isdigit s)"

section \<open>Version numbers\<close>

text \<open>
  The \<open>while parts:\<close> loop of \<open>Freezer._remove_version_numbers\<close>: as long as the
  last part is all digits it is popped and \<open>tweaked\<close> is set.
\<close>

function pop_version_parts :: "string list \<Rightarrow> bool \<Rightarrow> string list \<times> bool" where
  "pop_version_parts parts tweaked =
     (if parts = [] then (parts, tweaked)
      else if \<not> isdigit (last parts) then (parts, tweaked)
      else pop_version_parts (butlast parts) True)"
  by pat_completeness auto
termination
  by (relation "measure (\<lambda>(parts, tweaked). length parts)") auto

declare pop_version_parts.simps [simp del]

definition remove_version_numbers :: "string \<Rightarrow> string" where
  "remove_version_numbers filename =
     (let (parts, tweaked) = pop_version_parts (split_on CHR ''.'' filename) False
      in if tweaked then join_with ''.'' parts else filename)"

section \<open>Pure paths\<close>

text \<open>
  A \<open>pathlib\<close> pure path: its root (\<open>''''\<close> for a relative path) and the components
  after the root.  \<open>Path(s)\<close> drops empty and \<open>.\<close> components; exactly two leading
  slashes are kept as the root \<open>//\<close>, as the POSIX flavour does.
\<close>

datatype path = Path (root: string) (segs: "string list")

definition parse_root :: "string \<Rightarrow> string" where
  "parse_root s =
     (if take 1 s \<noteq> ''/'' then ''''
      else if take 2 s = ''//'' \<and> take 3 s \<noteq> ''///'' then ''//''
      else ''/'')"

definition parse_path :: "string \<Rightarrow> path" where
  "parse_path s =
     Path (parse_root s) (filter (\<lambda>c. c \<noteq> [] \<and> c \<noteq> ''.'') (split_on CHR ''/'' s))"

text \<open>\<open>p.name\<close>: the last component, or the empty string.\<close>

definition name :: "path \<Rightarrow> string" where
  "name p = (if segs p = [] then [] else last (segs p))"

text \<open>\<open>p.parent\<close>: the path without its last component; the root is its own parent.\<close>

definition parent :: "path \<Rightarrow> path" where
  "parent p = Path (root p) (butlast (segs p))"

text \<open>\<open>p / q\<close>: an absolute right operand replaces the left one.\<close>

definition joinpath :: "path \<Rightarrow> path \<Rightarrow> path" where
  "joinpath p q = (if root q \<noteq> [] then q else Path (root p) (segs p @ segs q))"

definition join_str :: "path \<Rightarrow> string \<Rightarrow> path" where
  "join_str p s = joinpath p (parse_path s)"

text \<open>\<open>p.parts\<close>: the root, when there is one, is the first part.\<close>

definition parts :: "path \<Rightarrow> string list" where
  "parts p = (if root p = [] then segs p else root p # segs p)"

text \<open>\<open>Path(*parts)\<close>.\<close>

definition path_of_parts :: "string list \<Rightarrow> path" where
  "path_of_parts ps = foldl join_str (Path [] []) ps"

text \<open>\<open>p.is_relative_to(other)\<close>: \<open>other\<close> is \<open>p\<close> or one of its parents.\<close>

definition is_relative_to :: "path \<Rightarrow> path \<Rightarrow> bool" where
  "is_relative_to p other =
     (root p = root other \<and> take (length (segs other)) (segs p) = segs other)"

text \<open>\<open>p.relative_to(other)\<close>; \<open>None\<close> stands for the \<open>ValueError\<close>.\<close>

definition relative_to :: "path \<Rightarrow> path \<Rightarrow> path option" where
  "relative_to p other =
     (if is_relative_to p other then Some (Path [] (drop (length (segs other)) (segs p)))
      else None)"

text \<open>
  \<open>p.with_name(n)\<close>; \<open>None\<close> stands for the \<open>ValueError\<close> raised when \<open>p\<close> has
  no name or \<open>n\<close> is not a valid name.
\<close>

definition with_name :: "path \<Rightarrow> string \<Rightarrow> path option" where
  "with_name p n =
     (if segs p = [] \<or> n = [] \<or> CHR ''/'' \<in> set n \<or> n = ''.'' then None
      else Some (Path (root p) (butlast (segs p) @ [n])))"

text \<open>\<open>p.as_posix()\<close>.\<close>

definition as_posix :: "path \<Rightarrow> string" where
  "as_posix p =
     (if root p = [] \<and> segs p = [] then ''.'' else root p @ join_with ''/'' (segs p))"

subsection \<open>A model of \<open>PurePosixPath.match\<close>\<close>

text \<open>
  Shell-style matching of one component: \<open>*\<close> stands for any run of characters and
  \<open>?\<close> for one character.  Character classes (\<open>[...]\<close>) are not modelled; the general
  results below are stated for an arbitrary matcher and use this one only on concrete
  patterns.
\<close>

fun glob :: "string \<Rightarrow> string \<Rightarrow> bool" where
  "glob [] t = (t = [])"
| "glob (c # cs) [] = (c = CHR ''*'' \<and> glob cs [])"
| "glob (c # cs) (x # xs) =
     (if c = CHR ''*'' then glob cs (x # xs) \<or> glob (c # cs) xs
      else if c = CHR ''?'' then glob cs xs
      else x = c \<and> glob cs xs)"

text \<open>
  A pattern with a root has to match the whole path; a relative pattern matches the
  last components of the path.  An empty pattern matches nothing here (Python raises
  \<open>ValueError\<close> for it).
\<close>

definition posix_match :: "path \<Rightarrow> string \<Rightarrow> bool" where
  "posix_match p pat =
     (let q = parse_path pat in
      if root q \<noteq> [] then
        root p = root q \<and> length (segs p) = length (segs q)
          \<and> list_all2 (\<lambda>t g. glob g t) (segs p) (segs q)
      else
        segs q \<noteq> [] \<and> length (segs q) \<le> length (segs p)
          \<and> list_all2 (\<lambda>t g. glob g t)
               (drop (length (segs p) - length (segs q)) (segs p)) (segs q))"

section \<open>Effects and collaborators\<close>

text \<open>
  The file-system operations a freeze performs are recorded, in order, as events.
  \<open>CreateDirectory\<close> is a call of \<open>Freezer._create_directory\<close>; \<open>WarnMetadata\<close>
  is the warning printed when the metadata of a copied file cannot be copied.
  Informational messages (printed when \<open>silent < 1\<close>) are not recorded.
\<close>

datatype event =
    CreateDirectory path
  | CopyFile path path
  | CopyMode path path
  | CopyStat path path
  | WarnMetadata path
  | SymlinkTo path path bool
  | SetRpath path string
  | ReplaceNeeded path string string

section \<open>The inclusion policy\<close>

text \<open>
  What the freezer reads from the Python library (\<open>normcase\<close>, \<open>pmatch\<close> for
  \<open>Path.match\<close>, \<open>relpath\<close>), from the file system (\<open>resolve\<close>, \<open>is_symlink\<close>,
  \<open>readlink\<close>, \<open>is_dir\<close>, and whether an operation succeeds or raises \<open>OSError\<close>) and
  from its collaborators: the dependency parser (\<open>get_dependent_files\<close>), the module
  finder (\<open>lib_files\<close>, \<open>excluded_dependent_files\<close>) and the lists of runtime files.
  The source tree is not changed by a freeze, so these are fixed functions; only
  \<open>exists\<close>, asked about paths of the bundle, depends on what has been done so far.
  \<open>abspath\<close> and \<open>rmtree_ok\<close> are used when the output directory is set.
\<close>

record env =
  normcase :: "string \<Rightarrow> string"
  pmatch :: "path \<Rightarrow> string \<Rightarrow> bool"
  relpath :: "path \<Rightarrow> path \<Rightarrow> path"
  resolve :: "path \<Rightarrow> path"
  is_symlink :: "path \<Rightarrow> bool"
  readlink :: "path \<Rightarrow> path"
  is_dir :: "path \<Rightarrow> bool"
  get_dependent_files :: "path \<Rightarrow> path list"
  lib_files :: "path \<Rightarrow> string option"
  excluded_dependent_files :: "path list"
  platform_bin_path :: "path list"
  mkdir_ok :: "path \<Rightarrow> bool"
  copyfile_ok :: "path \<Rightarrow> path \<Rightarrow> bool"
  copymode_ok :: "path \<Rightarrow> path \<Rightarrow> bool"
  copystat_ok :: "path \<Rightarrow> path \<Rightarrow> bool"
  symlink_ok :: "path \<Rightarrow> bool"
  exists :: "event list \<Rightarrow> path \<Rightarrow> bool"
  msvcr_files :: "path list"
  runtime_files :: "string list"
  abspath :: "string \<Rightarrow> string"
  rmtree_ok :: "path \<Rightarrow> bool"

text \<open>
  The configuration fields of the \<open>Freezer\<close> object.  The sets
  \<open>zip_include_packages\<close> and \<open>zip_exclude_packages\<close> are lists without repetition.
\<close>

record freezer =
  target_dir :: path
  silent :: int
  include_msvcr :: bool
  bin_includes :: "string list"
  bin_excludes :: "string list"
  bin_path_includes :: "string list"
  bin_path_excludes :: "string list"
  default_bin_includes :: "string list"
  default_bin_excludes :: "string list"
  default_bin_path_includes :: "string list"
  default_bin_path_excludes :: "string list"
  compress :: bool
  zip_include_packages :: "string list"
  zip_exclude_packages :: "string list"
  zip_include_all_packages :: bool
  zip_filename :: "path option"

text \<open>
  The two names derived at the top of \<open>_should_copy_file\<close>.
\<close>

definition filename_of :: "env \<Rightarrow> path \<Rightarrow> path" where
  "filename_of e p = parse_path (normcase e (name p))"

definition filename_noversion_of :: "env \<Rightarrow> path \<Rightarrow> path" where
  "filename_noversion_of e p = parse_path (remove_version_numbers (name (filename_of e p)))"

text \<open>
  The condition tested on each rule of \<open>bin_includes\<close> and \<open>bin_excludes\<close>: the full
  path, the file name, the file name without version numbers.
\<close>

definition name_rule_matches :: "env \<Rightarrow> path \<Rightarrow> string \<Rightarrow> bool" where
  "name_rule_matches e p binfile =
     (pmatch e p binfile
      \<or> pmatch e (filename_of e p) binfile
      \<or> pmatch e (filename_noversion_of e p) binfile)"

definition dir_rule_matches :: "path \<Rightarrow> string \<Rightarrow> bool" where
  "dir_rule_matches p binpath = is_relative_to (parent p) (parse_path binpath)"

text \<open>\<open>Freezer._should_copy_file\<close>: each \<open>for\<close> loop returns at its first match.\<close>

definition should_copy_file :: "env \<Rightarrow> freezer \<Rightarrow> path \<Rightarrow> bool" where
  "should_copy_file e f p =
     (if list_ex (name_rule_matches e p) (bin_includes f) then True
      else if list_ex (name_rule_matches e p) (bin_excludes f) then False
      else if list_ex (dir_rule_matches p) (bin_path_includes f) then True
      else if list_ex (dir_rule_matches p) (bin_path_excludes f) then False
      else if list_ex (pmatch e p) (default_bin_includes f) then True
      else if list_ex (pmatch e (filename_noversion_of e p)) (default_bin_excludes f) then False
      else if list_ex (dir_rule_matches p) (default_bin_path_includes f) then True
      else if list_ex (dir_rule_matches p) (default_bin_path_excludes f) then False
      else True)"

text \<open>
  The policy as the specification words it: a fixed sequence of layers, each a test
  with a verdict; the first layer whose test holds decides, and a path that no layer
  matches is included.
\<close>

fun first_match :: "(bool \<times> bool) list \<Rightarrow> bool" where
  "first_match [] = True"
| "first_match ((hit, verdict) # layers) = (if hit then verdict else first_match layers)"

definition policy_layers :: "env \<Rightarrow> freezer \<Rightarrow> path \<Rightarrow> (bool \<times> bool) list" where
  "policy_layers e f p =
     [(list_ex (name_rule_matches e p) (bin_includes f), True),
      (list_ex (name_rule_matches e p) (bin_excludes f), False),
      (list_ex (dir_rule_matches p) (bin_path_includes f), True),
      (list_ex (dir_rule_matches p) (bin_path_excludes f), False),
      (list_ex (pmatch e p) (default_bin_includes f), True),
      (list_ex (pmatch e (filename_noversion_of e p)) (default_bin_excludes f), False),
      (list_ex (dir_rule_matches p) (default_bin_path_includes f), True),
      (list_ex (dir_rule_matches p) (default_bin_path_excludes f), False)]"

section \<open>The copy operation\<close>

datatype exn = OptionError | OSError | ValueError | KeyError | StructError

text \<open>
  The result of an operation that may recurse through dependencies: it returns, it
  raises, or the recursion budget of the model is used up before it finishes.
\<close>

datatype 'a outcome = Returned 'a | Raised exn | OutOfFuel

text \<open>
  The mutable fields of the \<open>Freezer\<close> object, with the events performed so far.
  \<open>files_copied\<close> and \<open>_symlinks\<close> are Python sets; they are kept as lists without
  repetition, in insertion order, and iterated in that order.
\<close>

record state =
  files_copied :: "path list"
  symlinks :: "(path \<times> path \<times> bool) list"
  trace :: "event list"

definition set_add :: "'a \<Rightarrow> 'a list \<Rightarrow> 'a list" where
  "set_add x xs = (if x \<in> set xs then xs else xs @ [x])"

definition emit :: "event \<Rightarrow> state \<Rightarrow> state" where
  "emit ev s = s\<lparr>trace := trace s @ [ev]\<rparr>"

text \<open>\<open>Freezer._pre_copy_hook\<close>.\<close>

definition pre_copy_hook :: "env \<Rightarrow> state \<Rightarrow> path \<Rightarrow> path \<Rightarrow> exn + (path \<times> path \<times> state)" where
  "pre_copy_hook e s source target =
     (let real_source = resolve e source in
      if is_symlink e source then
        (let symlink = readlink e source in
         case with_name target (name symlink) of
           None \<Rightarrow> Inl ValueError
         | Some real_target \<Rightarrow>
             Inr (real_source, real_target,
                  s\<lparr>symlinks := set_add (target, symlink, is_dir e real_source) (symlinks s)\<rparr>))
      else Inr (real_source, target, s))"

text \<open>
  The metadata step of \<open>Freezer._copy_file\<close>: with \<open>include_mode\<close> the two calls are
  unguarded; without it a failing \<open>copystat\<close> is caught and reported.
\<close>

definition copy_metadata :: "env \<Rightarrow> freezer \<Rightarrow> state \<Rightarrow> path \<Rightarrow> path \<Rightarrow> bool \<Rightarrow> exn + state" where
  "copy_metadata e f s source target include_mode =
     (if include_mode then
        (if \<not> copymode_ok e source target then Inl OSError
         else if \<not> copystat_ok e source target then Inl OSError
         else Inr (emit (CopyStat source target) (emit (CopyMode source target) s)))
      else if copystat_ok e source target then Inr (emit (CopyStat source target) s)
      else if silent f < 3 then Inr (emit (WarnMetadata target) s)
      else Inr s)"

text \<open>\<open>lib_files.get(dependent_source)\<close> followed by the test \<open>if lib_file:\<close>.\<close>

definition lookup_lib_file :: "env \<Rightarrow> path \<Rightarrow> string option" where
  "lookup_lib_file e p =
     (case lib_files e p of
        None \<Rightarrow> None
      | Some lib_file \<Rightarrow> if lib_file = [] then None else Some lib_file)"

subsection \<open>Windows: where a dependency goes\<close>

text \<open>\<open>xs[: -k]\<close>.\<close>

definition slice_to_neg :: "'a list \<Rightarrow> nat \<Rightarrow> 'a list" where
  "slice_to_neg xs k = (if k = 0 then [] else take (length xs - k) xs)"

text \<open>
  The target computed in the \<open>else\<close> branch of \<open>WinFreezer._post_copy_hook\<close>, before
  the test against \<open>library_dir\<close>.  \<open>src_dir\<close> and \<open>tgt_dir\<close> are the hook's
  \<open>source_dir\<close> and \<open>target_dir\<close>, the parents of the file that was just copied.
\<close>

definition win_computed_target :: "env \<Rightarrow> freezer \<Rightarrow> path \<Rightarrow> path \<Rightarrow> path \<Rightarrow> path" where
  "win_computed_target e f src_dir tgt_dir dependent_source =
     (let library_dir = join_str (target_dir f) ''lib'';
          dependent_name = name dependent_source in
      case relative_to dependent_source src_dir of
        Some relative \<Rightarrow> joinpath tgt_dir relative
      | None \<Rightarrow>
          (let dependent_srcdir = parent dependent_source in
           if dependent_srcdir \<in> set (platform_bin_path e)
           then join_str library_dir dependent_name
           else (case relative_to src_dir dependent_srcdir of
                   Some relative \<Rightarrow>
                     join_str
                       (path_of_parts (slice_to_neg (parts tgt_dir) (length (parts relative))))
                       dependent_name
                 | None \<Rightarrow> join_str tgt_dir dependent_name)))"

definition win_dependent_target :: "env \<Rightarrow> freezer \<Rightarrow> path \<Rightarrow> path \<Rightarrow> path \<Rightarrow> path" where
  "win_dependent_target e f src_dir tgt_dir dependent_source =
     (let library_dir = join_str (target_dir f) ''lib'';
          dependent_name = name dependent_source in
      case lookup_lib_file e dependent_source of
        Some lib_file \<Rightarrow> join_str (target_dir f) lib_file
      | None \<Rightarrow>
          (let dependent_target = win_computed_target e f src_dir tgt_dir dependent_source in
           if \<not> is_relative_to dependent_target library_dir
           then join_str library_dir dependent_name
           else dependent_target))"

subsection \<open>Linux: where a dependency goes\<close>

text \<open>
  The target and the \<open>relative\<close> path computed in the loop body of
  \<open>LinuxFreezer._post_copy_hook\<close>; \<open>copied\<close> is \<open>files_copied\<close> at that moment.
\<close>

definition linux_dependent_target ::
  "env \<Rightarrow> freezer \<Rightarrow> path list \<Rightarrow> path \<Rightarrow> path \<Rightarrow> path \<Rightarrow> path \<times> path" where
  "linux_dependent_target e f copied src_dir tgt_dir dependent_source =
     (let dependent_name = name dependent_source in
      case lookup_lib_file e dependent_source of
        Some lib_file \<Rightarrow>
          (let dependent_target = join_str (target_dir f) lib_file in
           (dependent_target,
            case relative_to dependent_target tgt_dir of
              Some relative \<Rightarrow> relative
            | None \<Rightarrow> relpath e dependent_target tgt_dir))
      | None \<Rightarrow>
          (case relative_to dependent_source src_dir of
             Some relative \<Rightarrow> (joinpath tgt_dir relative, relative)
           | None \<Rightarrow>
               (case find (\<lambda>file. name file = dependent_name) copied of
                  None \<Rightarrow> (join_str tgt_dir dependent_name, parse_path dependent_name)
                | Some file \<Rightarrow>
                    (case relative_to file tgt_dir of
                       Some relative \<Rightarrow> (file, relative)
                     | None \<Rightarrow>
                         (join_str tgt_dir dependent_name, relpath e file tgt_dir)))))"

text \<open>\<open>fix_needed.setdefault(k, v)\<close> on a dictionary kept as an association list.\<close>

definition setdefault :: "'k \<Rightarrow> 'v \<Rightarrow> ('k \<times> 'v) list \<Rightarrow> ('k \<times> 'v) list" where
  "setdefault k v kvs = (if k \<in> fst ` set kvs then kvs else kvs @ [(k, v)])"

subsection \<open>The post-copy hooks\<close>

text \<open>
  Each hook is given the copy operation it recurses into (\<open>self._copy_file\<close>, or
  \<open>self._copy_file_recursion\<close> on macOS) as the argument \<open>copy\<close>.
\<close>

type_synonym copy_fn = "state \<Rightarrow> path \<Rightarrow> path \<Rightarrow> bool \<Rightarrow> state outcome"

fun win_copy_dependents ::
  "copy_fn \<Rightarrow> env \<Rightarrow> freezer \<Rightarrow> path \<Rightarrow> path \<Rightarrow> bool \<Rightarrow> path list \<Rightarrow> state \<Rightarrow> state outcome" where
  "win_copy_dependents copy e f src_dir tgt_dir cdf [] s = Returned s"
| "win_copy_dependents copy e f src_dir tgt_dir cdf (dependent # rest) s =
     (if \<not> should_copy_file e f dependent
      then win_copy_dependents copy e f src_dir tgt_dir cdf rest s
      else
        (let dependent_source = resolve e dependent;
             dependent_target = win_dependent_target e f src_dir tgt_dir dependent_source in
         case copy s dependent_source dependent_target cdf of
           Returned s' \<Rightarrow> win_copy_dependents copy e f src_dir tgt_dir cdf rest s'
         | Raised x \<Rightarrow> Raised x
         | OutOfFuel \<Rightarrow> OutOfFuel))"

definition win_post_copy_hook ::
  "copy_fn \<Rightarrow> env \<Rightarrow> freezer \<Rightarrow> state \<Rightarrow> path \<Rightarrow> path \<Rightarrow> bool \<Rightarrow> state outcome" where
  "win_post_copy_hook copy e f s source target copy_dependent_files =
     (if \<not> (copy_dependent_files \<and> source \<notin> set (excluded_dependent_files e))
      then Returned s
      else win_copy_dependents copy e f (parent source) (parent target)
             copy_dependent_files (get_dependent_files e source) s)"

fun linux_copy_dependents ::
  "copy_fn \<Rightarrow> env \<Rightarrow> freezer \<Rightarrow> path \<Rightarrow> path \<Rightarrow> bool \<Rightarrow> path list \<Rightarrow> state
     \<Rightarrow> string list \<Rightarrow> (string \<times> string) list
     \<Rightarrow> (state \<times> string list \<times> (string \<times> string) list) outcome" where
  "linux_copy_dependents copy e f src_dir tgt_dir cdf [] s fix_rpath fix_needed =
     Returned (s, fix_rpath, fix_needed)"
| "linux_copy_dependents copy e f src_dir tgt_dir cdf (dependent # rest) s fix_rpath fix_needed =
     (if \<not> should_copy_file e f dependent
      then linux_copy_dependents copy e f src_dir tgt_dir cdf rest s fix_rpath fix_needed
      else
        (let dependent_source = resolve e dependent;
             dependent_name = name dependent_source;
             (dependent_target, relative) =
                linux_dependent_target e f (files_copied s) src_dir tgt_dir dependent_source;
             fix_rpath' = set_add (''$ORIGIN/'' @ as_posix (parent relative)) fix_rpath
         in
         case copy s dependent_source dependent_target cdf of
           Returned s' \<Rightarrow>
             linux_copy_dependents copy e f src_dir tgt_dir cdf rest s' fix_rpath'
               (if name dependent \<noteq> dependent_name
                then setdefault (name dependent) dependent_name fix_needed
                else fix_needed)
         | Raised x \<Rightarrow> Raised x
         | OutOfFuel \<Rightarrow> OutOfFuel))"

definition linux_post_copy_hook ::
  "copy_fn \<Rightarrow> env \<Rightarrow> freezer \<Rightarrow> state \<Rightarrow> path \<Rightarrow> path \<Rightarrow> bool \<Rightarrow> state outcome" where
  "linux_post_copy_hook copy e f s source target copy_dependent_files =
     (if \<not> (copy_dependent_files \<and> source \<notin> set (excluded_dependent_files e))
      then Returned s
      else
        (case linux_copy_dependents copy e f (parent source) (parent target)
                copy_dependent_files (get_dependent_files e source) s [] [] of
           Returned (s', fix_rpath, fix_needed) \<Rightarrow>
             (let s'' = (if fix_rpath \<noteq> []
                         then emit (SetRpath target (join_with '':'' fix_rpath)) s'
                         else s')
              in Returned
                   (foldl (\<lambda>st (needed_old, needed_new).
                             emit (ReplaceNeeded target needed_old needed_new) st)
                      s'' fix_needed))
         | Raised x \<Rightarrow> Raised x
         | OutOfFuel \<Rightarrow> OutOfFuel))"

text \<open>
  \<open>DarwinFreezer._post_copy_hook\<close>.  The bookkeeping of Mach-O references (the
  \<open>DarwinFile\<close> objects and the tracker) belongs to a collaborator and changes neither
  the copied-file set nor the deferred links; it is left out.
\<close>

fun darwin_copy_dependents :: "copy_fn \<Rightarrow> freezer \<Rightarrow> path list \<Rightarrow> state \<Rightarrow> state outcome" where
  "darwin_copy_dependents copy f [] s = Returned s"
| "darwin_copy_dependents copy f (dependent # rest) s =
     (let target_lib = join_str (target_dir f) ''lib'';
          target = join_str target_lib (name dependent) in
      case copy s dependent target True of
        Returned s' \<Rightarrow> darwin_copy_dependents copy f rest s'
      | Raised x \<Rightarrow> Raised x
      | OutOfFuel \<Rightarrow> OutOfFuel)"

definition darwin_post_copy_hook ::
  "copy_fn \<Rightarrow> env \<Rightarrow> freezer \<Rightarrow> state \<Rightarrow> path \<Rightarrow> path \<Rightarrow> bool \<Rightarrow> state outcome" where
  "darwin_post_copy_hook copy e f s source target copy_dependent_files =
     (if copy_dependent_files \<and> source \<notin> set (excluded_dependent_files e)
      then darwin_copy_dependents copy f (get_dependent_files e source) s
      else Returned s)"

subsection \<open>\<open>_copy_file\<close> and \<open>_copy_file_recursion\<close>\<close>

datatype platform = Windows | Darwin | Linux

text \<open>
  \<open>DarwinFreezer._copy_file_recursion\<close>.  The first argument bounds the depth of the
  recursion through dependencies.
\<close>

fun copy_file_recursion ::
  "nat \<Rightarrow> env \<Rightarrow> freezer \<Rightarrow> state \<Rightarrow> path \<Rightarrow> path \<Rightarrow> bool \<Rightarrow> bool \<Rightarrow> state outcome" where
  "copy_file_recursion 0 e f s source target copy_dependent_files include_mode = OutOfFuel"
| "copy_file_recursion (Suc n) e f s source target copy_dependent_files include_mode =
     (if \<not> should_copy_file e f source then Returned s
      else
        (case pre_copy_hook e s source target of
           Inl x \<Rightarrow> Raised x
         | Inr (source', target', s1) \<Rightarrow>
             if target' \<in> set (files_copied s1) then Returned s1
             else if source' = target' then Returned s1
             else if \<not> mkdir_ok e (parent target') then Raised OSError
             else if \<not> copyfile_ok e source' target' then Raised OSError
             else if \<not> copystat_ok e source' target' then Raised OSError
             else if include_mode \<and> \<not> copymode_ok e source' target' then Raised OSError
             else
               (let s2 = emit (CopyStat source' target')
                           (emit (CopyFile source' target')
                              (emit (CreateDirectory (parent target')) s1));
                    s3 = (if include_mode then emit (CopyMode source' target') s2 else s2);
                    s4 = s3\<lparr>files_copied := set_add target' (files_copied s3)\<rparr>
                in darwin_post_copy_hook
                     (\<lambda>st src tgt cdf. copy_file_recursion n e f st src tgt cdf False)
                     e f s4 source' target' copy_dependent_files)))"

text \<open>
  The abstract method \<open>Freezer._post_copy_hook\<close>, resolved by the platform's subclass.
  \<open>copy\<close> is \<open>self._copy_file\<close> and \<open>copy_rec\<close> is \<open>self._copy_file_recursion\<close>.
\<close>

definition post_copy_hook ::
  "platform \<Rightarrow> copy_fn \<Rightarrow> copy_fn \<Rightarrow> env \<Rightarrow> freezer \<Rightarrow> state \<Rightarrow> path \<Rightarrow> path \<Rightarrow> bool
     \<Rightarrow> state outcome" where
  "post_copy_hook pf copy copy_rec e f s source target copy_dependent_files =
     (case pf of
        Windows \<Rightarrow> win_post_copy_hook copy e f s source target copy_dependent_files
      | Linux \<Rightarrow> linux_post_copy_hook copy e f s source target copy_dependent_files
      | Darwin \<Rightarrow> darwin_post_copy_hook copy_rec e f s source target copy_dependent_files)"

text \<open>\<open>Freezer._copy_file\<close>.\<close>

fun copy_file ::
  "nat \<Rightarrow> platform \<Rightarrow> env \<Rightarrow> freezer \<Rightarrow> state \<Rightarrow> path \<Rightarrow> path \<Rightarrow> bool \<Rightarrow> bool \<Rightarrow> state outcome" where
  "copy_file 0 pf e f s source target copy_dependent_files include_mode = OutOfFuel"
| "copy_file (Suc n) pf e f s source target copy_dependent_files include_mode =
     (if \<not> should_copy_file e f source then Returned s
      else
        (case pre_copy_hook e s source target of
           Inl x \<Rightarrow> Raised x
         | Inr (source', target', s1) \<Rightarrow>
             if target' \<in> set (files_copied s1) then Returned s1
             else if source' = target' then Returned s1
             else if \<not> mkdir_ok e (parent target') then Raised OSError
             else if \<not> copyfile_ok e source' target' then Raised OSError
             else
               (case copy_metadata e f
                       (emit (CopyFile source' target')
                          (emit (CreateDirectory (parent target')) s1))
                       source' target' include_mode of
                  Inl x \<Rightarrow> Raised x
                | Inr s3 \<Rightarrow>
                    (let s4 = s3\<lparr>files_copied := set_add target' (files_copied s3)\<rparr> in
                     post_copy_hook pf
                       (\<lambda>st src tgt cdf. copy_file n pf e f st src tgt cdf False)
                       (\<lambda>st src tgt cdf. copy_file_recursion n e f st src tgt cdf False)
                       e f s4 source' target' copy_dependent_files))))"

section \<open>After the copies\<close>

text \<open>
  \<open>Freezer._post_freeze_hook\<close>: the loop over the deferred links.  A link is created
  only where nothing exists yet; \<open>symlink_to\<close> may fail with \<open>OSError\<close>.
\<close>

fun link_symlinks :: "env \<Rightarrow> (path \<times> path \<times> bool) list \<Rightarrow> state \<Rightarrow> exn + state" where
  "link_symlinks e [] s = Inr s"
| "link_symlinks e ((target, symlink, symlink_is_directory) # rest) s =
     (if \<not> exists e (trace s) target then
        (if \<not> symlink_ok e target then Inl OSError
         else link_symlinks e rest (emit (SymlinkTo target symlink symlink_is_directory) s))
      else link_symlinks e rest s)"

definition post_freeze_hook :: "env \<Rightarrow> state \<Rightarrow> exn + state" where
  "post_freeze_hook e s = link_symlinks e (symlinks s) s"

text \<open>\<open>p.stem\<close>: the name without its last suffix.\<close>

definition stem :: "path \<Rightarrow> string" where
  "stem p =
     (let nm = name p;
          k = length (takeWhile (\<lambda>c. c \<noteq> CHR ''.'') (rev nm)) in
      if CHR ''.'' \<in> set nm \<and> 0 < k \<and> k + 1 < length nm
      then take (length nm - 1 - k) nm
      else nm)"

text \<open>
  \<open>WinFreezer._post_freeze_hook\<close>, which does not call the base class: with
  \<open>include_msvcr\<close> the runtime files leave the default excludes and are copied.
\<close>

fun win_copy_msvcr :: "nat \<Rightarrow> env \<Rightarrow> freezer \<Rightarrow> path list \<Rightarrow> state \<Rightarrow> state outcome" where
  "win_copy_msvcr n e f [] s = Returned s"
| "win_copy_msvcr n e f (source # rest) s =
     (let license_dir = join_str (target_dir f) ''share/licenses/vc_redist'';
          target = (if stem source = ''LICENSE'' then join_str license_dir (name source)
                    else join_str (target_dir f) (name source)) in
      case copy_file n Windows e f s source target False False of
        Returned s' \<Rightarrow> win_copy_msvcr n e f rest s'
      | Raised x \<Rightarrow> Raised x
      | OutOfFuel \<Rightarrow> OutOfFuel)"

definition win_post_freeze_hook :: "nat \<Rightarrow> env \<Rightarrow> freezer \<Rightarrow> state \<Rightarrow> (freezer \<times> state) outcome" where
  "win_post_freeze_hook n e f s =
     (if include_msvcr f then
        (let f' = f\<lparr>default_bin_excludes :=
                      filter (\<lambda>x. x \<notin> set (runtime_files e)) (remdups (default_bin_excludes f))\<rparr>
         in case win_copy_msvcr n e f' (msvcr_files e) s of
              Returned s' \<Rightarrow> Returned (f', s')
            | Raised x \<Rightarrow> Raised x
            | OutOfFuel \<Rightarrow> OutOfFuel)
      else Returned (f, s))"

text \<open>
  \<open>Freezer.freeze\<close>.  Every file is copied by a call of \<open>_copy_file\<close> (from
  \<open>_freeze_executable\<close>, \<open>_write_modules\<close> and the loop over the included files) or,
  on macOS, of \<open>_copy_file_recursion\<close> (from \<open>_get_top_dependencies\<close>).  A run is given
  by the list of these calls in the order they are made; the post-freeze hook of the
  platform follows the last of them.
\<close>

datatype request =
    CopyRequest path path bool bool
  | RecursionRequest path path bool bool

fun copy_requests ::
  "nat \<Rightarrow> platform \<Rightarrow> env \<Rightarrow> freezer \<Rightarrow> request list \<Rightarrow> state \<Rightarrow> state outcome" where
  "copy_requests n pf e f [] s = Returned s"
| "copy_requests n pf e f (CopyRequest source target cdf include_mode # rest) s =
     (case copy_file n pf e f s source target cdf include_mode of
        Returned s' \<Rightarrow> copy_requests n pf e f rest s'
      | Raised x \<Rightarrow> Raised x
      | OutOfFuel \<Rightarrow> OutOfFuel)"
| "copy_requests n pf e f (RecursionRequest source target cdf include_mode # rest) s =
     (case copy_file_recursion n e f s source target cdf include_mode of
        Returned s' \<Rightarrow> copy_requests n pf e f rest s'
      | Raised x \<Rightarrow> Raised x
      | OutOfFuel \<Rightarrow> OutOfFuel)"

definition freeze ::
  "nat \<Rightarrow> platform \<Rightarrow> env \<Rightarrow> freezer \<Rightarrow> request list \<Rightarrow> state \<Rightarrow> state outcome" where
  "freeze n pf e f requests s =
     (case copy_requests n pf e f requests s of
        Returned s' \<Rightarrow>
          (case pf of
             Windows \<Rightarrow>
               (case win_post_freeze_hook n e f s' of
                  Returned (f', s'') \<Rightarrow> Returned s''
                | Raised x \<Rightarrow> Raised x
                | OutOfFuel \<Rightarrow> OutOfFuel)
           | _ \<Rightarrow>
               (case post_freeze_hook e s' of
                  Inl x \<Rightarrow> Raised x
                | Inr s'' \<Rightarrow> Returned s''))
      | Raised x \<Rightarrow> Raised x
      | OutOfFuel \<Rightarrow> OutOfFuel)"

section \<open>Extension modules and the search path of the process\<close>

text \<open>
  An entry of \<open>files_to_copy\<close> in \<open>_write_modules\<close>: the module's file, the search
  path of its parent package (\<open>None\<close> when \<open>module.parent\<close> is \<open>None\<close>), and the target.
\<close>

record ext_module =
  module_file :: path
  parent_path :: "string list option"

type_synonym environ = "string \<rightharpoonup> string"

text \<open>
  The loop \<open>for module, target in files_to_copy\<close>: the \<open>finally\<close> clause runs whether
  the copy returns or raises.  When the model's recursion budget runs out inside a
  copy, the environment is the one in force during that copy.
\<close>

fun copy_extension_loop ::
  "nat \<Rightarrow> platform \<Rightarrow> env \<Rightarrow> freezer \<Rightarrow> string \<Rightarrow> string \<Rightarrow> (ext_module \<times> path) list
     \<Rightarrow> environ \<Rightarrow> state \<Rightarrow> environ \<times> state outcome" where
  "copy_extension_loop n pf e f pathsep orig_path [] environ s = (environ, Returned s)"
| "copy_extension_loop n pf e f pathsep orig_path ((m, target) # rest) environ s =
     (let environ1 =
            (case parent_path m of
               Some parent_dirs \<Rightarrow>
                 environ(''PATH'' \<mapsto> join_with pathsep (orig_path # parent_dirs))
             | None \<Rightarrow> environ) in
      case copy_file n pf e f s (module_file m) target True False of
        Returned s' \<Rightarrow>
          copy_extension_loop n pf e f pathsep orig_path rest
            (environ1(''PATH'' \<mapsto> orig_path)) s'
      | Raised x \<Rightarrow> (environ1(''PATH'' \<mapsto> orig_path), Raised x)
      | OutOfFuel \<Rightarrow> (environ1, OutOfFuel))"

text \<open>\<open>orig_path = os.environ["PATH"]\<close> raises \<open>KeyError\<close> when the variable is unset.\<close>

definition copy_extension_modules ::
  "nat \<Rightarrow> platform \<Rightarrow> env \<Rightarrow> freezer \<Rightarrow> string \<Rightarrow> (ext_module \<times> path) list
     \<Rightarrow> environ \<Rightarrow> state \<Rightarrow> environ \<times> state outcome" where
  "copy_extension_modules n pf e f pathsep files_to_copy environ s =
     (case environ ''PATH'' of
        None \<Rightarrow> (environ, Raised KeyError)
      | Some orig_path \<Rightarrow>
          copy_extension_loop n pf e f pathsep orig_path files_to_copy environ s)"

section \<open>Bytecode files\<close>

type_synonym byte = "8 word"

text \<open>The four bytes of a 32-bit field, least significant first.\<close>

definition uint32_le :: "int \<Rightarrow> byte list" where
  "uint32_le v = map (\<lambda>k. word_of_int (drop_bit (8 * k) v)) [0, 1, 2, 3]"

text \<open>
  \<open>struct.pack("<iLL", a, b, c)\<close>: standard sizes, little-endian, no padding;
  \<open>struct.error\<close> when a value does not fit its field.
\<close>

definition struct_pack_iLL :: "int \<Rightarrow> int \<Rightarrow> int \<Rightarrow> exn + byte list" where
  "struct_pack_iLL a b c =
     (if a < - (2 ^ 31) \<or> 2 ^ 31 \<le> a \<or> b < 0 \<or> 2 ^ 32 \<le> b \<or> c < 0 \<or> 2 ^ 32 \<le> c
      then Inl StructError
      else Inr (uint32_le a @ uint32_le b @ uint32_le c))"

text \<open>
  A module as \<open>_write_modules\<close> reads it for the bytecode: its source file, if any, and
  its code object, if any.
\<close>

record 'c pymodule =
  mfile :: "path option"
  mcode :: "'c option"

text \<open>
  The block \<open>if module.code is not None:\<close> of \<open>_write_modules\<close>.  \<open>magic\<close> is
  \<open>importlib.util.MAGIC_NUMBER\<close> and \<open>marshal_dumps\<close> the serializer of code objects;
  \<open>stat p\<close> is \<open>None\<close> when \<open>p\<close> does not exist and otherwise the pair
  \<open>(int(st_mtime), st_size)\<close>; \<open>now\<close> is \<open>int(time.time())\<close>.  The result is \<open>None\<close>
  when the module has no code (no \<open>data\<close> is built).
\<close>

definition pyc_data ::
  "byte list \<Rightarrow> ('c \<Rightarrow> byte list) \<Rightarrow> (path \<Rightarrow> (int \<times> int) option) \<Rightarrow> int \<Rightarrow> 'c pymodule
     \<Rightarrow> (exn + byte list) option" where
  "pyc_data magic marshal_dumps stat now m =
     (case mcode m of
        None \<Rightarrow> None
      | Some c \<Rightarrow>
          (let (mtime, size) =
                 (case (case mfile m of None \<Rightarrow> None | Some p \<Rightarrow> stat p) of
                    Some (st_mtime, st_size) \<Rightarrow>
                      (st_mtime AND 0xFFFFFFFF, st_size AND 0xFFFFFFFF)
                  | None \<Rightarrow> (now AND 0xFFFFFFFF, 0))
           in case struct_pack_iLL 0 mtime size of
                Inl x \<Rightarrow> Some (Inl x)
              | Inr packed \<Rightarrow> Some (Inr ((magic @ packed) @ marshal_dumps c))))"

section \<open>The archive after the modules are written\<close>

text \<open>
  The part of the file system the last step of \<open>_write_modules\<close> works on: a path
  holds plain bytes or a zip archive, given by its members (name and content).
\<close>

datatype fnode = Bytes string | Zip "(string \<times> string) list"

type_synonym fs = "path \<rightharpoonup> fnode"

text \<open>
  Where \<open>ZipFile.extractall\<close> writes a member: below the directory, with empty, \<open>.\<close>
  and \<open>..\<close> components of the member's name removed.
\<close>

definition member_target :: "path \<Rightarrow> string \<Rightarrow> path" where
  "member_target dir member =
     Path (root dir)
       (segs dir @ filter (\<lambda>c. c \<noteq> [] \<and> c \<noteq> ''.'' \<and> c \<noteq> ''..'') (split_on CHR ''/'' member))"

definition extractall :: "path \<Rightarrow> (string \<times> string) list \<Rightarrow> fs \<Rightarrow> fs" where
  "extractall dir members files =
     foldl (\<lambda>fs (member, content). fs(member_target dir member \<mapsto> Bytes content)) files members"

text \<open>
  The last step of \<open>_write_modules\<close> (``put all files in file system or keep in zip
  file'').  Opening a missing file, or one that is not an archive, and renaming a
  missing file raise \<open>OSError\<close>.
\<close>

definition write_modules_finish :: "freezer \<Rightarrow> fs \<Rightarrow> exn + fs" where
  "write_modules_finish f files =
     (let filename = join_str (join_str (target_dir f) ''lib'') ''library.zip'';
          target_lib_dir = parent filename in
      case zip_filename f of
        None \<Rightarrow>
          (case files filename of
             Some (Zip members) \<Rightarrow>
               Inr ((extractall target_lib_dir members files)(filename := None))
           | _ \<Rightarrow> Inl OSError)
      | Some zip_file \<Rightarrow>
          (let library_data = join_str (join_str (target_dir f) ''lib'') ''library.dat'' in
           if name zip_file \<noteq> name filename then
             (case files filename of
                None \<Rightarrow> Inl OSError
              | Some archive \<Rightarrow>
                  Inr ((files(filename := None, zip_file \<mapsto> archive))
                         (library_data \<mapsto> Bytes (name zip_file))))
           else Inr (files(library_data \<mapsto> Bytes (name zip_file)))))"

section \<open>Construction of the freezer\<close>








section \<open>A concrete setting\<close>

text \<open>
  \<open>os.path.relpath\<close> on absolute paths without \<open>..\<close> components: drop the common
  prefix, climb out of what is left of the start directory.
\<close>

fun strip_common :: "string list \<Rightarrow> string list \<Rightarrow> string list \<times> string list" where
  "strip_common (x # xs) (y # ys) = (if x = y then strip_common xs ys else (x # xs, y # ys))"
| "strip_common xs ys = (xs, ys)"

definition posix_relpath :: "path \<Rightarrow> path \<Rightarrow> path" where
  "posix_relpath p start =
     (let (rest, up) = strip_common (segs p) (segs start) in
      Path [] (replicate (length up) ''..'' @ rest))"

text \<open>
  The POSIX flavour of the library over a source tree that has no symbolic links, no
  directories among the paths asked about and no dependencies, where every operation
  succeeds and nothing exists in the bundle but what was put there.  The examples
  below change the fields they need.
\<close>

definition produced :: "event list \<Rightarrow> path \<Rightarrow> bool" where
  "produced evs p =
     list_ex (\<lambda>ev. case ev of CopyFile src tgt \<Rightarrow> tgt = p
                             | SymlinkTo tgt payload d \<Rightarrow> tgt = p
                             | _ \<Rightarrow> False) evs"

definition posix_env :: env where
  "posix_env =
     \<lparr>normcase = (\<lambda>s. s),
      pmatch = posix_match,
      relpath = posix_relpath,
      resolve = (\<lambda>p. p),
      is_symlink = (\<lambda>p. False),
      readlink = (\<lambda>p. p),
      is_dir = (\<lambda>p. False),
      get_dependent_files = (\<lambda>p. []),
      lib_files = (\<lambda>p. None),
      excluded_dependent_files = [],
      platform_bin_path = [],
      mkdir_ok = (\<lambda>p. True),
      copyfile_ok = (\<lambda>src tgt. True),
      copymode_ok = (\<lambda>src tgt. True),
      copystat_ok = (\<lambda>src tgt. True),
      symlink_ok = (\<lambda>p. True),
      exists = produced,
      msvcr_files = [],
      runtime_files = [],
      abspath = (\<lambda>s. s),
      rmtree_ok = (\<lambda>p. True)\<rparr>"

text \<open>A freezer with the bundle root \<open>/build\<close> and no rules at all.\<close>

definition plain_freezer :: freezer where
  "plain_freezer =
     \<lparr>target_dir = Path ''/'' [''build''],
      silent = 0,
      include_msvcr = False,
      bin_includes = [],
      bin_excludes = [],
      bin_path_includes = [],
      bin_path_excludes = [],
      default_bin_includes = [],
      default_bin_excludes = [],
      default_bin_path_includes = [],
      default_bin_path_excludes = [],
      compress = True,
      zip_include_packages = [],
      zip_exclude_packages = [''*''],
      zip_include_all_packages = False,
      zip_filename = Some (Path ''/'' [''build'', ''lib'', ''library.zip''])\<rparr>"

definition empty_state :: state where
  "empty_state = \<lparr>files_copied = [], symlinks = [], trace = []\<rparr>"

section \<open>Examples\<close>

text \<open>
  The program \<open>/src/app\<close> needs the library \<open>/opt/libz.so.1\<close>; \<open>app_copied\<close> is the
  state after \<open>/src/app\<close> was copied to \<open>/build/app\<close> with its dependencies on Linux.
\<close>

definition app_env :: env where
  "app_env =
     posix_env\<lparr>get_dependent_files :=
       (\<lambda>p. if p = Path ''/'' [''src'', ''app''] then [Path ''/'' [''opt'', ''libz.so.1'']] else [])\<rparr>"

definition app_copied :: state where
  "app_copied =
     \<lparr>files_copied = [Path ''/'' [''build'', ''app''], Path ''/'' [''build'', ''libz.so.1'']],
      symlinks = [],
      trace =
        [CreateDirectory (Path ''/'' [''build'']),
         CopyFile (Path ''/'' [''src'', ''app'']) (Path ''/'' [''build'', ''app'']),
         CopyStat (Path ''/'' [''src'', ''app'']) (Path ''/'' [''build'', ''app'']),
         CreateDirectory (Path ''/'' [''build'']),
         CopyFile (Path ''/'' [''opt'', ''libz.so.1'']) (Path ''/'' [''build'', ''libz.so.1'']),
         CopyStat (Path ''/'' [''opt'', ''libz.so.1'']) (Path ''/'' [''build'', ''libz.so.1'']),
         SetRpath (Path ''/'' [''build'', ''app'']) ''$ORIGIN/.'']\<rparr>"

text \<open>
  A source tree with a chain of links: \<open>/usr/lib/libz.so\<close> is a link to
  \<open>libz.so.1\<close>, which leads on to the real file \<open>/usr/lib/libz.so.1.3\<close>.
\<close>

definition link_env :: env where
  "link_env =
     posix_env\<lparr>is_symlink := (\<lambda>p. p = Path ''/'' [''usr'', ''lib'', ''libz.so'']),
               readlink := (\<lambda>p. Path [] [''libz.so.1'']),
               resolve := (\<lambda>p. if p = Path ''/'' [''usr'', ''lib'', ''libz.so'']
                                then Path ''/'' [''usr'', ''lib'', ''libz.so.1.3''] else p)\<rparr>"

definition libz_linked :: state where
  "libz_linked =
     \<lparr>files_copied = [Path ''/'' [''build'', ''lib'', ''libz.so.1'']],
      symlinks = [(Path ''/'' [''build'', ''lib'', ''libz.so''], Path [] [''libz.so.1''], False)],
      trace = []\<rparr>"

definition libz_trace :: "event list" where
  "libz_trace =
     [CreateDirectory (Path ''/'' [''build'', ''lib'']),
      CopyFile (Path ''/'' [''usr'', ''lib'', ''libz.so.1.3'']) (Path ''/'' [''build'', ''lib'', ''libz.so.1'']),
      CopyStat (Path ''/'' [''usr'', ''lib'', ''libz.so.1.3'']) (Path ''/'' [''build'', ''lib'', ''libz.so.1''])]"

text \<open>A file system on which \<open>shutil.copystat\<close> always fails.\<close>

definition nostat_env :: env where
  "nostat_env = posix_env\<lparr>copystat_ok := (\<lambda>src tgt. False)\<rparr>"



text \<open>One extension module inside the package \<open>pkg\<close>, and a freshly built archive.\<close>

definition ext_files :: "(ext_module \<times> path) list" where
  "ext_files =
     [(\<lparr>module_file = Path ''/'' [''src'', ''pkg'', ''ext.so''], parent_path = Some [''/src/pkg'']\<rparr>,
       Path ''/'' [''build'', ''lib'', ''pkg.ext.so''])]"

definition built_files :: fs where
  "built_files =
     [Path ''/'' [''build'', ''lib'', ''library.zip''] \<mapsto> Zip [(''pkg/m.pyc'', ''code'')]]"

section \<open>What a freeze may change\<close>

text \<open>The events that create no link, and the targets of the byte copies among events.\<close>

definition no_links :: "event list \<Rightarrow> bool" where
  "no_links evs = list_all (\<lambda>ev. case ev of SymlinkTo t p d \<Rightarrow> False | _ \<Rightarrow> True) evs"

definition copy_targets :: "event list \<Rightarrow> path list" where
  "copy_targets evs = concat (map (\<lambda>ev. case ev of CopyFile src tgt \<Rightarrow> [tgt] | _ \<Rightarrow> []) evs)"

text \<open>
  \<open>extends s s'\<close>: the copied-file set and the deferred links have only grown, and the
  trace was extended by events that create no link and whose byte copies have distinct
  targets, each of them added to the copied-file set and none of them in it before.
\<close>

definition extends :: "state \<Rightarrow> state \<Rightarrow> bool" where
  "extends s s' =
     (set (files_copied s) \<subseteq> set (files_copied s')
      \<and> set (symlinks s) \<subseteq> set (symlinks s')
      \<and> (\<exists>evs. trace s' = trace s @ evs \<and> no_links evs
                \<and> distinct (copy_targets evs)
                \<and> set (copy_targets evs) \<subseteq> set (files_copied s') - set (files_copied s)))"

definition copy_extends :: "copy_fn \<Rightarrow> bool" where
  "copy_extends copy = (\<forall>s src tgt cdf s'. copy s src tgt cdf = Returned s' \<longrightarrow> extends s s')"

text \<open>The events that are all link creations, and the triples they materialize.\<close>

definition only_links :: "event list \<Rightarrow> bool" where
  "only_links evs = list_all (\<lambda>ev. case ev of SymlinkTo t p d \<Rightarrow> True | _ \<Rightarrow> False) evs"

definition linked :: "event list \<Rightarrow> (path \<times> path \<times> bool) list" where
  "linked evs = concat (map (\<lambda>ev. case ev of SymlinkTo t p d \<Rightarrow> [(t, p, d)] | _ \<Rightarrow> []) evs)"

section \<open>Version stripping as a list operation\<close>

lemma join_with_Cons_Cons: "join_with sep ((a # x) # ys) = a # join_with sep (x # ys)"
  by (cases ys) simp_all

lemma join_split: "join_with [c] (split_on c s) = s"
  by (induction s) (auto split: list.splits simp: join_with_Cons_Cons)

lemma split_on_nonempty: "split_on c s \<noteq> []"
  by (cases s) (auto split: list.splits)

lemma pop_version_parts_eq:
  "pop_version_parts ps t =
     (rev (dropWhile isdigit (rev ps)), t \<or> (ps \<noteq> [] \<and> isdigit (last ps)))"
proof (induction ps t rule: pop_version_parts.induct)
  case (1 ps t)
  show ?case
  proof (cases "ps = []")
    case True
    then show ?thesis by (simp add: pop_version_parts.simps)
  next
    case False
    then obtain xs x where ps: "ps = xs @ [x]"
      by (metis append_butlast_last_id)
    show ?thesis
    proof (cases "isdigit x")
      case True
      with ps 1 show ?thesis
        by (subst pop_version_parts.simps) simp
    next
      case False
      with ps show ?thesis
        by (subst pop_version_parts.simps) simp
    qed
  qed
qed

lemma remove_version_numbers_eq:
  "remove_version_numbers s = join_with ''.'' (rev (dropWhile isdigit (rev (split_on CHR ''.'' s))))"
proof (cases "isdigit (last (split_on CHR ''.'' s))")
  case True
  then show ?thesis
    by (simp add: remove_version_numbers_def pop_version_parts_eq split_on_nonempty)
next
  case False
  have ne: "split_on CHR ''.'' s \<noteq> []" by (rule split_on_nonempty)
  then have "dropWhile isdigit (rev (split_on CHR ''.'' s)) = rev (split_on CHR ''.'' s)"
    using False by (metis dropWhile_eq_self_iff hd_rev rev_is_Nil_conv)
  with False show ?thesis 
    using join_split[of "CHR ''.''" s]
    by (simp add: remove_version_numbers_def pop_version_parts_eq)
qed


section \<open>The order of the policy layers\<close>

text \<open>
  Claim C1.  \<open>_should_copy_file\<close> consults its eight rule lists in the fixed order
  user include names, user exclude names, user include directories, user exclude
  directories, default include names, default exclude names, default include
  directories, default exclude directories; the first list with a matching rule
  decides, and a path that no list matches is included.  Hence a path matched by a
  user include-by-name rule is included also when a platform-default exclude rule
  (by name or by directory) matches it.
\<close>

theorem should_copy_file_layer_order:
  "should_copy_file e f p = first_match (policy_layers e f p)
   \<and> (list_ex (name_rule_matches e p) (bin_includes f)
        \<and> (list_ex (pmatch e (filename_noversion_of e p)) (default_bin_excludes f)
            \<or> list_ex (dir_rule_matches p) (default_bin_path_excludes f))
      \<longrightarrow> should_copy_file e f p)"
  by (simp add: should_copy_file_def policy_layers_def)

lemma libc_noversion: "filename_noversion_of posix_env (Path ''/'' [''lib'', ''libc.so.6'']) = Path [] [''libc.so'']"
  by (simp add: filename_noversion_of_def filename_of_def posix_env_def name_def parse_path_def parse_root_def
     remove_version_numbers_eq isdigit_def char_isdigit_def)

lemma libc_full_match: "posix_match (Path ''/'' [''lib'', ''libc.so.6'']) ''libc.so.*''"
  by (simp add: posix_match_def parse_path_def parse_root_def)

lemma libc_noversion_match: "posix_match (Path [] [''libc.so'']) ''libc.so''"
  by (simp add: posix_match_def parse_path_def parse_root_def)

theorem should_copy_file_layer_order_witness:
  "list_ex (name_rule_matches posix_env (Path ''/'' [''lib'', ''libc.so.6'']))
     (bin_includes (plain_freezer\<lparr>bin_includes := [''libc.so.*''], default_bin_excludes := [''libc.so'']\<rparr>))
   \<and> list_ex (pmatch posix_env (filename_noversion_of posix_env (Path ''/'' [''lib'', ''libc.so.6''])))
       (default_bin_excludes (plain_freezer\<lparr>bin_includes := [''libc.so.*''], default_bin_excludes := [''libc.so'']\<rparr>))
   \<and> should_copy_file posix_env
        (plain_freezer\<lparr>bin_includes := [''libc.so.*''], default_bin_excludes := [''libc.so'']\<rparr>)
        (Path ''/'' [''lib'', ''libc.so.6''])"
proof -
  let ?f = "plain_freezer\<lparr>bin_includes := [''libc.so.*''], default_bin_excludes := [''libc.so'']\<rparr>"
  let ?p = "Path ''/'' [''lib'', ''libc.so.6'']"
  have a: "list_ex (name_rule_matches posix_env ?p) (bin_includes ?f)"
    using libc_full_match by (simp add: name_rule_matches_def posix_env_def)
  have b: "list_ex (pmatch posix_env (filename_noversion_of posix_env ?p)) (default_bin_excludes ?f)"
    using libc_noversion_match by (simp add: libc_noversion) (simp add: posix_env_def)
  from a b should_copy_file_layer_order [of posix_env ?f ?p] show ?thesis by blast
qed



section \<open>The forms a name rule is matched against\<close>








section \<open>Copies only extend the state\<close>

lemma no_links_append [simp]: "no_links (a @ b) = (no_links a \<and> no_links b)"
  by (simp add: no_links_def)

lemma copy_targets_append [simp]: "copy_targets (a @ b) = copy_targets a @ copy_targets b"
  by (simp add: copy_targets_def)

lemma copy_targets_simps [simp]:
  "copy_targets [] = []"
  "copy_targets (CopyFile src tgt # evs) = tgt # copy_targets evs"
  "copy_targets (CreateDirectory d # evs) = copy_targets evs"
  "copy_targets (CopyMode src tgt # evs) = copy_targets evs"
  "copy_targets (CopyStat src tgt # evs) = copy_targets evs"
  "copy_targets (WarnMetadata tgt # evs) = copy_targets evs"
  "copy_targets (SymlinkTo tgt pl b # evs) = copy_targets evs"
  "copy_targets (SetRpath tgt r # evs) = copy_targets evs"
  "copy_targets (ReplaceNeeded tgt a c # evs) = copy_targets evs"
  by (simp_all add: copy_targets_def)

lemma no_links_simps [simp]:
  "no_links [] = True"
  "no_links (CopyFile src tgt # evs) = no_links evs"
  "no_links (CreateDirectory d # evs) = no_links evs"
  "no_links (CopyMode src tgt # evs) = no_links evs"
  "no_links (CopyStat src tgt # evs) = no_links evs"
  "no_links (WarnMetadata tgt # evs) = no_links evs"
  "no_links (SymlinkTo tgt pl b # evs) = False"
  "no_links (SetRpath tgt r # evs) = no_links evs"
  "no_links (ReplaceNeeded tgt a c # evs) = no_links evs"
  by (simp_all add: no_links_def)

lemma extends_refl: "extends s s"
  by (simp add: extends_def no_links_def copy_targets_def)

lemma extends_trans:
  assumes "extends s t" "extends t u"
  shows "extends s u"
proof -
  from assms(1) obtain a where a: "trace t = trace s @ a" "no_links a" "distinct (copy_targets a)"
    "set (copy_targets a) \<subseteq> set (files_copied t) - set (files_copied s)"
    and st: "set (files_copied s) \<subseteq> set (files_copied t)" "set (symlinks s) \<subseteq> set (symlinks t)"
    by (auto simp: extends_def)
  from assms(2) obtain b where b: "trace u = trace t @ b" "no_links b" "distinct (copy_targets b)"
    "set (copy_targets b) \<subseteq> set (files_copied u) - set (files_copied t)"
    and tu: "set (files_copied t) \<subseteq> set (files_copied u)" "set (symlinks t) \<subseteq> set (symlinks u)"
    by (auto simp: extends_def)
  have 1: "trace u = trace s @ (a @ b)" using a(1) b(1) by simp
  have 2: "no_links (a @ b)" using a(2) b(2) by simp
  have 3: "distinct (copy_targets (a @ b))" using a(3,4) b(3,4) by auto
  have 4: "set (copy_targets (a @ b)) \<subseteq> set (files_copied u) - set (files_copied s)"
    using a(4) b(4) st(1) tu(1) by auto
  from 1 2 3 4 st tu show ?thesis unfolding extends_def by blast
qed

lemma extends_same:
  "files_copied s' = files_copied s \<Longrightarrow> symlinks s' = symlinks s \<Longrightarrow> trace s' = trace s @ evs
   \<Longrightarrow> no_links evs \<Longrightarrow> copy_targets evs = [] \<Longrightarrow> extends s s'"
  by (auto simp: extends_def)

lemma extends_emit:
  "(case ev of SymlinkTo t p d \<Rightarrow> False | CopyFile a b \<Rightarrow> False | _ \<Rightarrow> True) \<Longrightarrow> extends s (emit ev s)"
  by (rule extends_same [where evs = "[ev]"])
     (auto simp: emit_def no_links_def copy_targets_def split: event.splits)

lemma extends_add_symlink: "extends s (s\<lparr>symlinks := set_add t (symlinks s)\<rparr>)"
  by (auto simp: extends_def set_add_def no_links_def copy_targets_def)

lemma pre_copy_hook_extends:
  "pre_copy_hook e s source target = Inr (source', target', s1) \<Longrightarrow> extends s s1"
  by (auto simp: pre_copy_hook_def Let_def extends_refl extends_add_symlink split: if_splits option.splits)

lemma copy_metadata_trace:
  "copy_metadata e f s source target im = Inr s' \<Longrightarrow>
     files_copied s' = files_copied s \<and> symlinks s' = symlinks s
     \<and> (\<exists>evs. trace s' = trace s @ evs \<and> no_links evs \<and> copy_targets evs = [])"
  by (auto simp: copy_metadata_def emit_def split: if_splits)

lemma copy_step_extends:
  assumes "tgt \<notin> set (files_copied s1)"
    and "copy_metadata e f (emit (CopyFile src tgt) (emit (CreateDirectory d) s1)) src tgt im = Inr s3"
  shows "extends s1 (s3\<lparr>files_copied := set_add tgt (files_copied s3)\<rparr>)"
proof -
  from copy_metadata_trace [OF assms(2)] obtain evs where
    fc: "files_copied s3 = files_copied s1" and sl: "symlinks s3 = symlinks s1"
    and tr: "trace s3 = trace s1 @ (CreateDirectory d # CopyFile src tgt # evs)"
    and nl: "no_links evs" and ct: "copy_targets evs = []"
    by (auto simp: emit_def)
  show ?thesis
    unfolding extends_def
    using assms(1) fc sl tr nl ct
    by (auto simp: set_add_def)
qed

lemma darwin_step_extends:
  assumes "tgt \<notin> set (files_copied s1)"
    and "s2 = emit (CopyStat src tgt) (emit (CopyFile src tgt) (emit (CreateDirectory d) s1))"
    and "s3 = (if im then emit (CopyMode src tgt) s2 else s2)"
  shows "extends s1 (s3\<lparr>files_copied := set_add tgt (files_copied s3)\<rparr>)"
  unfolding extends_def using assms
  by (auto simp: set_add_def emit_def
       intro!: exI [where x = "[CreateDirectory d, CopyFile src tgt, CopyStat src tgt] @ (if im then [CopyMode src tgt] else [])"])

lemma win_copy_dependents_extends:
  "copy_extends copy \<Longrightarrow> win_copy_dependents copy e f sd td cdf deps s = Returned s' \<Longrightarrow> extends s s'"
proof (induction deps arbitrary: s)
  case Nil
  then show ?case by (simp add: extends_refl)
next
  case (Cons d deps)
  show ?case
  proof (cases "should_copy_file e f d")
    case False
    with Cons show ?thesis by simp
  next
    case True
    with Cons.prems obtain s1 where
      c: "copy s (resolve e d) (win_dependent_target e f sd td (resolve e d)) cdf = Returned s1"
      and r: "win_copy_dependents copy e f sd td cdf deps s1 = Returned s'"
      by (auto simp: Let_def split: outcome.splits)
    from c Cons.prems(1) have "extends s s1" by (auto simp: copy_extends_def)
    moreover from Cons.IH [OF Cons.prems(1) r] have "extends s1 s'" .
    ultimately show ?thesis by (rule extends_trans)
  qed
qed

lemma darwin_copy_dependents_extends:
  "copy_extends copy \<Longrightarrow> darwin_copy_dependents copy f deps s = Returned s' \<Longrightarrow> extends s s'"
proof (induction deps arbitrary: s)
  case Nil
  then show ?case by (simp add: extends_refl)
next
  case (Cons d deps)
  from Cons.prems obtain s1 where
      c: "copy s d (join_str (join_str (target_dir f) ''lib'') (name d)) True = Returned s1"
      and r: "darwin_copy_dependents copy f deps s1 = Returned s'"
      by (auto simp: Let_def split: outcome.splits)
  from c Cons.prems(1) have "extends s s1" by (auto simp: copy_extends_def)
  moreover from Cons.IH [OF Cons.prems(1) r] have "extends s1 s'" .
  ultimately show ?case by (rule extends_trans)
qed

lemma linux_copy_dependents_extends:
  "copy_extends copy \<Longrightarrow>
   linux_copy_dependents copy e f sd td cdf deps s fr fn = Returned (s', fr', fn') \<Longrightarrow> extends s s'"
proof (induction deps arbitrary: s fr fn)
  case Nil
  then show ?case by (simp add: extends_refl)
next
  case (Cons d deps)
  show ?case
  proof (cases "should_copy_file e f d")
    case False
    with Cons show ?thesis by simp
  next
    case True
    with Cons.prems obtain s1 tgt fr1 fn1 where
      c: "copy s (resolve e d) tgt cdf = Returned s1"
      and r: "linux_copy_dependents copy e f sd td cdf deps s1 fr1 fn1 = Returned (s', fr', fn')"
      by (auto simp: Let_def split: outcome.splits prod.splits if_splits)
    from c Cons.prems(1) have "extends s s1" by (auto simp: copy_extends_def)
    moreover from Cons.IH [OF Cons.prems(1) r] have "extends s1 s'" .
    ultimately show ?thesis by (rule extends_trans)
  qed
qed

lemma foldl_replace_needed_extends:
  "extends s (foldl (\<lambda>st (a, b). emit (ReplaceNeeded t a b) st) s kvs)"
proof (induction kvs arbitrary: s)
  case Nil
  show ?case by (simp add: extends_refl)
next
  case (Cons kv kvs)
  obtain a b where kv: "kv = (a, b)" by (cases kv)
  have "extends s (emit (ReplaceNeeded t a b) s)" by (rule extends_emit) simp
  with Cons [of "emit (ReplaceNeeded t a b) s"] show ?case
    by (auto simp: kv intro: extends_trans)
qed

lemma win_post_copy_hook_extends:
  "copy_extends copy \<Longrightarrow> win_post_copy_hook copy e f s src tgt cdf = Returned s' \<Longrightarrow> extends s s'"
  by (auto simp: win_post_copy_hook_def extends_refl split: if_splits dest: win_copy_dependents_extends)

lemma darwin_post_copy_hook_extends:
  "copy_extends copy \<Longrightarrow> darwin_post_copy_hook copy e f s src tgt cdf = Returned s' \<Longrightarrow> extends s s'"
  by (auto simp: darwin_post_copy_hook_def extends_refl split: if_splits dest: darwin_copy_dependents_extends)

lemma linux_post_copy_hook_extends:
  assumes "copy_extends copy" "linux_post_copy_hook copy e f s src tgt cdf = Returned s'"
  shows "extends s s'"
proof (cases "cdf \<and> src \<notin> set (excluded_dependent_files e)")
  case False
  with assms show ?thesis by (auto simp: linux_post_copy_hook_def extends_refl)
next
  case True
  with assms(2) obtain s1 fr fn where
    l: "linux_copy_dependents copy e f (parent src) (parent tgt) cdf (get_dependent_files e src) s [] [] = Returned (s1, fr, fn)"
    and s': "s' = foldl (\<lambda>st (a, b). emit (ReplaceNeeded tgt a b) st)
                (if fr \<noteq> [] then emit (SetRpath tgt (join_with '':'' fr)) s1 else s1) fn"
    by (auto simp: linux_post_copy_hook_def Let_def split: outcome.splits)
  have 1: "extends s s1" using linux_copy_dependents_extends [OF assms(1) l] .
  have 2: "extends s1 (if fr \<noteq> [] then emit (SetRpath tgt (join_with '':'' fr)) s1 else s1)"
    by (auto intro: extends_refl extends_emit)
  show ?thesis unfolding s'
    by (rule extends_trans [OF 1 extends_trans [OF 2 foldl_replace_needed_extends]])
qed

lemma copy_file_recursion_extends:
  "copy_file_recursion n e f s src tgt cdf im = Returned s' \<Longrightarrow> extends s s'"
proof (induction n arbitrary: s src tgt cdf im s')
  case 0
  then show ?case by simp
next
  case (Suc n)
  have cp: "copy_extends (\<lambda>st src tgt cdf. copy_file_recursion n e f st src tgt cdf False)"
    using Suc.IH by (simp add: copy_extends_def)
  show ?case
  proof (cases "should_copy_file e f src")
    case False
    with Suc.prems show ?thesis by (simp add: extends_refl)
  next
    case True
    with Suc.prems obtain src' tgt' s1 where
      pre: "pre_copy_hook e s src tgt = Inr (src', tgt', s1)"
      by (auto split: sum.splits)
    note e1 = pre_copy_hook_extends [OF pre]
    show ?thesis
    proof (cases "tgt' \<in> set (files_copied s1) \<or> src' = tgt'")
      case True
      with Suc.prems \<open>should_copy_file e f src\<close> pre e1 show ?thesis
        by (auto split: if_splits)
    next
      case False
      define s2 where "s2 = emit (CopyStat src' tgt') (emit (CopyFile src' tgt') (emit (CreateDirectory (parent tgt')) s1))"
      define s3 where "s3 = (if im then emit (CopyMode src' tgt') s2 else s2)"
      define s4 where "s4 = s3\<lparr>files_copied := set_add tgt' (files_copied s3)\<rparr>"
      from False Suc.prems \<open>should_copy_file e f src\<close> pre
      have hook: "darwin_post_copy_hook (\<lambda>st src tgt cdf. copy_file_recursion n e f st src tgt cdf False)
                    e f s4 src' tgt' cdf = Returned s'"
        by (auto simp: Let_def s2_def s3_def s4_def split: if_splits)
      have e2: "extends s1 s4" unfolding s4_def
        using False by (intro darwin_step_extends [OF _ s2_def s3_def]) simp
      from darwin_post_copy_hook_extends [OF cp hook] have e3: "extends s4 s'" .
      from e1 e2 e3 show ?thesis by (blast intro: extends_trans)
    qed
  qed
qed

lemma post_copy_hook_extends:
  "copy_extends copy \<Longrightarrow> copy_extends copy_rec \<Longrightarrow>
   post_copy_hook pf copy copy_rec e f s src tgt cdf = Returned s' \<Longrightarrow> extends s s'"
  by (cases pf)
     (auto simp: post_copy_hook_def dest: win_post_copy_hook_extends linux_post_copy_hook_extends
        darwin_post_copy_hook_extends)

lemma copy_file_extends:
  "copy_file n pf e f s src tgt cdf im = Returned s' \<Longrightarrow> extends s s'"
proof (induction n arbitrary: s src tgt cdf im s')
  case 0
  then show ?case by simp
next
  case (Suc n)
  have cp: "copy_extends (\<lambda>st src tgt cdf. copy_file n pf e f st src tgt cdf False)"
    using Suc.IH by (simp add: copy_extends_def)
  have cpr: "copy_extends (\<lambda>st src tgt cdf. copy_file_recursion n e f st src tgt cdf False)"
    using copy_file_recursion_extends by (simp add: copy_extends_def)
  show ?case
  proof (cases "should_copy_file e f src")
    case False
    with Suc.prems show ?thesis by (simp add: extends_refl)
  next
    case True
    with Suc.prems obtain src' tgt' s1 where
      pre: "pre_copy_hook e s src tgt = Inr (src', tgt', s1)"
      by (auto split: sum.splits)
    note e1 = pre_copy_hook_extends [OF pre]
    show ?thesis
    proof (cases "tgt' \<in> set (files_copied s1) \<or> src' = tgt'")
      case True
      with Suc.prems \<open>should_copy_file e f src\<close> pre e1 show ?thesis
        by (auto split: if_splits)
    next
      case False
      with Suc.prems \<open>should_copy_file e f src\<close> pre obtain s3 where
        md: "copy_metadata e f (emit (CopyFile src' tgt') (emit (CreateDirectory (parent tgt')) s1))
               src' tgt' im = Inr s3"
        by (auto split: if_splits sum.splits)
      define s4 where "s4 = s3\<lparr>files_copied := set_add tgt' (files_copied s3)\<rparr>"
      from False Suc.prems \<open>should_copy_file e f src\<close> pre md
      have hook: "post_copy_hook pf (\<lambda>st src tgt cdf. copy_file n pf e f st src tgt cdf False)
                    (\<lambda>st src tgt cdf. copy_file_recursion n e f st src tgt cdf False)
                    e f s4 src' tgt' cdf = Returned s'"
        unfolding s4_def by (auto simp: Let_def split: if_splits)
      have e2: "extends s1 s4" unfolding s4_def
        using False md by (intro copy_step_extends [where d = "parent tgt'"]) auto
      have e3: "extends s4 s'"
        using post_copy_hook_extends [OF cp cpr hook] .
      from e1 e2 e3 show ?thesis by (blast intro: extends_trans)
    qed
  qed
qed

section \<open>Idempotence of the copy operation\<close>

lemma pre_copy_hook_again:
  assumes "pre_copy_hook e s source target = Inr (src', tgt', s1)"
    and "set (symlinks s1) \<subseteq> set (symlinks s')"
  shows "pre_copy_hook e s' source target = Inr (src', tgt', s')"
proof (cases "is_symlink e source")
  case False
  with assms show ?thesis by (simp add: pre_copy_hook_def)
next
  case True
  with assms(1) obtain rt where
    wn: "with_name target (name (readlink e source)) = Some rt"
    and eqs: "src' = resolve e source" "tgt' = rt"
      "s1 = s\<lparr>symlinks := set_add (target, readlink e source, is_dir e (resolve e source)) (symlinks s)\<rparr>"
    by (auto simp: pre_copy_hook_def Let_def split: option.splits)
  from eqs(3) have "(target, readlink e source, is_dir e (resolve e source)) \<in> set (symlinks s1)"
    by (simp add: set_add_def)
  with assms(2) have "set_add (target, readlink e source, is_dir e (resolve e source)) (symlinks s') = symlinks s'"
    by (auto simp: set_add_def)
  with True wn eqs show ?thesis by (simp add: pre_copy_hook_def Let_def)
qed

lemma pre_copy_hook_files:
  "pre_copy_hook e s source target = Inr (src', tgt', s1) \<Longrightarrow>
     files_copied s1 = files_copied s \<and> trace s1 = trace s"
  by (auto simp: pre_copy_hook_def Let_def split: if_splits option.splits)

lemma copy_file_cases:
  assumes "copy_file n pf e f s source target cdf im = Returned s'"
  obtains (skipped) "\<not> should_copy_file e f source" "s' = s"
  | (noop) src' tgt' where "should_copy_file e f source"
      "pre_copy_hook e s source target = Inr (src', tgt', s')"
      "tgt' \<in> set (files_copied s') \<or> src' = tgt'"
  | (copied) src' tgt' s1 where "should_copy_file e f source"
      "pre_copy_hook e s source target = Inr (src', tgt', s1)"
      "tgt' \<notin> set (files_copied s1)" "src' \<noteq> tgt'"
      "tgt' \<in> set (files_copied s')" "extends s1 s'"
      "CopyFile src' tgt' \<in> set (trace s')"
proof -
  from assms obtain k where n: "n = Suc k" by (cases n) auto
  show ?thesis
  proof (cases "should_copy_file e f source")
    case False
    with assms n show ?thesis by (intro skipped) auto
  next
    case True
    with assms n obtain src' tgt' s1 where
      pre: "pre_copy_hook e s source target = Inr (src', tgt', s1)"
      by (auto split: sum.splits)
    show ?thesis
    proof (cases "tgt' \<in> set (files_copied s1) \<or> src' = tgt'")
      case t: True
      with assms n True pre have "s' = s1" by (auto split: if_splits)
      with True pre t show ?thesis by (intro noop [of src' tgt']) auto
    next
      case False
      have ex: "extends s s'" using assms by (rule copy_file_extends)
      from False assms n True pre obtain s3 where
        md: "copy_metadata e f (emit (CopyFile src' tgt') (emit (CreateDirectory (parent tgt')) s1))
               src' tgt' im = Inr s3"
        by (auto split: if_splits sum.splits)
      define s4 where "s4 = s3\<lparr>files_copied := set_add tgt' (files_copied s3)\<rparr>"
      have cp: "copy_extends (\<lambda>st src tgt cdf. copy_file k pf e f st src tgt cdf False)"
        using copy_file_extends by (simp add: copy_extends_def)
      have cpr: "copy_extends (\<lambda>st src tgt cdf. copy_file_recursion k e f st src tgt cdf False)"
        using copy_file_recursion_extends by (simp add: copy_extends_def)
      from False assms n True pre md
      have hook: "post_copy_hook pf (\<lambda>st src tgt cdf. copy_file k pf e f st src tgt cdf False)
                    (\<lambda>st src tgt cdf. copy_file_recursion k e f st src tgt cdf False)
                    e f s4 src' tgt' cdf = Returned s'"
        unfolding s4_def by (auto simp: Let_def split: if_splits)
      have e3: "extends s4 s'"
        using post_copy_hook_extends [OF cp cpr hook] .
      have e2: "extends s1 s4" unfolding s4_def
        using False md by (intro copy_step_extends [where d = "parent tgt'"]) auto
      have "tgt' \<in> set (files_copied s4)" by (simp add: s4_def set_add_def)
      with e3 have in': "tgt' \<in> set (files_copied s')" by (auto simp: extends_def)
      from copy_metadata_trace [OF md] have "CopyFile src' tgt' \<in> set (trace s4)"
        by (auto simp: s4_def emit_def)
      with e3 have ev: "CopyFile src' tgt' \<in> set (trace s')" by (auto simp: extends_def)
      from True pre False in' ev extends_trans [OF e2 e3] show ?thesis
        by (intro copied [of src' tgt' s1]) auto
    qed
  qed
qed

text \<open>
  Claim C3.  After a call of \<open>_copy_file\<close> that returned, a second call with the same
  arguments returns the state unchanged: the copied-file set and the deferred links are
  the same and no event (so no byte copy) is added.  During a call the copied-file set
  only grows and the byte copies it performs have distinct targets, none of which was
  in the copied-file set before, so a target is written at most once.  A request whose
  target (after the pre-copy hook) is already in the copied-file set, or equals the
  resolved source, changes neither the copied-file set nor the trace.
\<close>

theorem copy_file_idempotent:
  assumes "copy_file n pf e f s source target cdf im = Returned s'"
  shows "copy_file (Suc m) pf e f s' source target cdf im = Returned s'
         \<and> set (files_copied s) \<subseteq> set (files_copied s')
         \<and> (\<exists>evs. trace s' = trace s @ evs \<and> distinct (copy_targets evs)
                  \<and> set (copy_targets evs) \<inter> set (files_copied s) = {})
         \<and> (\<forall>src' tgt' s1. pre_copy_hook e s source target = Inr (src', tgt', s1)
                \<and> (tgt' \<in> set (files_copied s) \<or> src' = tgt')
              \<longrightarrow> files_copied s' = files_copied s \<and> trace s' = trace s)"
proof -
  have ex: "extends s s'" using assms by (rule copy_file_extends)
  have again: "copy_file (Suc m) pf e f s' source target cdf im = Returned s'"
    using assms
  proof (cases rule: copy_file_cases)
    case skipped
    then show ?thesis by simp
  next
    case (noop src' tgt')
    from pre_copy_hook_again [OF noop(2)] have "pre_copy_hook e s' source target = Inr (src', tgt', s')"
      by simp
    with noop show ?thesis by auto
  next
    case (copied src' tgt' s1)
    from copied(6) have "set (symlinks s1) \<subseteq> set (symlinks s')" by (simp add: extends_def)
    from pre_copy_hook_again [OF copied(2) this] copied show ?thesis by auto
  qed
  have noop': "files_copied s' = files_copied s \<and> trace s' = trace s"
    if pre: "pre_copy_hook e s source target = Inr (src', tgt', s1)"
      and c: "tgt' \<in> set (files_copied s) \<or> src' = tgt'" for src' tgt' s1
    using assms
  proof (cases rule: copy_file_cases)
    case skipped
    then show ?thesis by simp
  next
    case (noop a b)
    with pre pre_copy_hook_files [OF pre] show ?thesis by simp
  next
    case (copied a b s2)
    with pre pre_copy_hook_files [OF pre] c show ?thesis by auto
  qed
  from ex again noop' show ?thesis
    unfolding extends_def by blast
qed


theorem copy_file_idempotent_witness:
  "copy_file (Suc (Suc 0)) Linux app_env plain_freezer empty_state
     (Path ''/'' [''src'', ''app'']) (Path ''/'' [''build'', ''app'']) True False
   = Returned app_copied
   \<and> copy_file (Suc 0) Linux app_env plain_freezer app_copied
       (Path ''/'' [''src'', ''app'']) (Path ''/'' [''build'', ''app'']) True False
     = Returned app_copied"
proof -
  have h: "copy_file (Suc (Suc 0)) Linux app_env plain_freezer empty_state
     (Path ''/'' [''src'', ''app'']) (Path ''/'' [''build'', ''app'']) True False
   = Returned app_copied"
    by code_simp
  from h copy_file_idempotent [OF h, of 0] show ?thesis by blast
qed

section \<open>Deferred symbolic links\<close>

lemma only_links_simps [simp]:
  "only_links [] = True"
  "only_links (SymlinkTo t p d # evs) = only_links evs"
  by (simp_all add: only_links_def)

lemma linked_simps [simp]:
  "linked [] = []"
  "linked (SymlinkTo t p d # evs) = (t, p, d) # linked evs"
  by (simp_all add: linked_def)

lemma link_symlinks_trace:
  "link_symlinks e ls s = Inr s' \<Longrightarrow>
     files_copied s' = files_copied s \<and> symlinks s' = symlinks s
     \<and> (\<exists>evs. trace s' = trace s @ evs \<and> only_links evs \<and> set (linked evs) \<subseteq> set ls)"
proof (induction ls arbitrary: s)
  case Nil
  then show ?case by simp
next
  case (Cons l ls)
  obtain t p d where l: "l = (t, p, d)" by (cases l)
  show ?case
  proof (cases "exists e (trace s) t")
    case True
    with Cons.prems l have "link_symlinks e ls s = Inr s'" by simp
    from Cons.IH [OF this] show ?thesis by auto
  next
    case False
    with Cons.prems l have r: "link_symlinks e ls (emit (SymlinkTo t p d) s) = Inr s'"
      by (simp split: if_splits)
    from Cons.IH [OF r] obtain evs where
      a: "files_copied s' = files_copied s" "symlinks s' = symlinks s"
      and b: "trace s' = trace s @ (SymlinkTo t p d # evs)" "only_links evs" "set (linked evs) \<subseteq> set ls"
      by (auto simp: emit_def)
    from b(2,3) have "only_links (SymlinkTo t p d # evs)" "set (linked (SymlinkTo t p d # evs)) \<subseteq> set (l # ls)"
      by (auto simp: l)
    with a b(1) show ?thesis by blast
  qed
qed

lemma win_copy_msvcr_extends:
  "win_copy_msvcr n e f srcs s = Returned s' \<Longrightarrow> extends s s'"
proof (induction srcs arbitrary: s)
  case Nil
  then show ?case by (simp add: extends_refl)
next
  case (Cons x xs)
  from Cons.prems obtain tgt s1 where
    c: "copy_file n Windows e f s x tgt False False = Returned s1"
    and r: "win_copy_msvcr n e f xs s1 = Returned s'"
    by (auto simp: Let_def split: outcome.splits)
  from copy_file_extends [OF c] Cons.IH [OF r] show ?case by (rule extends_trans)
qed

lemma copy_requests_extends:
  "copy_requests n pf e f reqs s = Returned s' \<Longrightarrow> extends s s'"
proof (induction reqs arbitrary: s)
  case Nil
  then show ?case by (simp add: extends_refl)
next
  case (Cons r reqs)
  show ?case
  proof (cases r)
    case (CopyRequest a b c d)
    with Cons.prems obtain s1 where
      c: "copy_file n pf e f s a b c d = Returned s1"
      and r: "copy_requests n pf e f reqs s1 = Returned s'"
      by (auto split: outcome.splits)
    from copy_file_extends [OF c] Cons.IH [OF r] show ?thesis by (rule extends_trans)
  next
    case (RecursionRequest a b c d)
    with Cons.prems obtain s1 where
      c: "copy_file_recursion n e f s a b c d = Returned s1"
      and r: "copy_requests n pf e f reqs s1 = Returned s'"
      by (auto split: outcome.splits)
    from copy_file_recursion_extends [OF c] Cons.IH [OF r] show ?thesis by (rule extends_trans)
  qed
qed

lemma freeze_trace:
  assumes "freeze n pf e f reqs s = Returned s'"
  shows "\<exists>s1 copies links. copy_requests n pf e f reqs s = Returned s1
           \<and> trace s' = trace s @ copies @ links
           \<and> no_links copies \<and> only_links links \<and> set (linked links) \<subseteq> set (symlinks s1)"
proof -
  from assms obtain s1 where c: "copy_requests n pf e f reqs s = Returned s1"
    by (auto simp: freeze_def split: outcome.splits)
  from copy_requests_extends [OF c] obtain a where
    a: "trace s1 = trace s @ a" "no_links a" by (auto simp: extends_def)
  show ?thesis
  proof (cases "pf = Windows")
    case True
    with assms c obtain f' where "win_post_freeze_hook n e f s1 = Returned (f', s')"
      by (auto simp: freeze_def split: outcome.splits)
    then have "extends s1 s'"
      by (auto simp: win_post_freeze_hook_def Let_def extends_refl split: if_splits outcome.splits
          dest: win_copy_msvcr_extends)
    then obtain b where "trace s' = trace s1 @ b" "no_links b" by (auto simp: extends_def)
    with a have "trace s' = trace s @ (a @ b) @ []" "no_links (a @ b)" by simp_all
    moreover have "only_links []" "set (linked []) \<subseteq> set (symlinks s1)"
      by simp_all
    ultimately show ?thesis using c by blast
  next
    case False
    with assms c have "post_freeze_hook e s1 = Inr s'"
      by (cases pf) (auto simp: freeze_def split: sum.splits)
    from link_symlinks_trace [OF this [unfolded post_freeze_hook_def]] obtain b where
      "trace s' = trace s1 @ b" "only_links b" "set (linked b) \<subseteq> set (symlinks s1)" by auto
    with a c show ?thesis by auto
  qed
qed

lemma pre_copy_hook_symlink:
  assumes "is_symlink e source" "pre_copy_hook e s source target = Inr (src', tgt', s1)"
  shows "src' = resolve e source \<and> with_name target (name (readlink e source)) = Some tgt'
         \<and> name tgt' = name (readlink e source) \<and> parent tgt' = parent target
         \<and> (target, readlink e source, is_dir e (resolve e source)) \<in> set (symlinks s1)
         \<and> set (symlinks s) \<subseteq> set (symlinks s1)
         \<and> files_copied s1 = files_copied s \<and> trace s1 = trace s"
  using assms
  by (auto simp: pre_copy_hook_def Let_def set_add_def with_name_def name_def parent_def
      split: option.splits if_splits)


text \<open>
  For a chain of links the redirected copy is named after the link's payload, not
  after the resolved real file.
\<close>

theorem real_name_counterexample:
  "pre_copy_hook link_env empty_state
     (Path ''/'' [''usr'', ''lib'', ''libz.so'']) (Path ''/'' [''build'', ''lib'', ''libz.so''])
   = Inr (Path ''/'' [''usr'', ''lib'', ''libz.so.1.3''],
          Path ''/'' [''build'', ''lib'', ''libz.so.1''],
          empty_state\<lparr>symlinks :=
            [(Path ''/'' [''build'', ''lib'', ''libz.so''], Path [] [''libz.so.1''], False)]\<rparr>)
   \<and> name (Path ''/'' [''build'', ''lib'', ''libz.so.1''])
       \<noteq> name (Path ''/'' [''usr'', ''lib'', ''libz.so.1.3''])"
  by (simp add: pre_copy_hook_def link_env_def posix_env_def empty_state_def with_name_def
      name_def set_add_def)

text \<open>
  Claim C4, as amended.  When the source of a copy is a symbolic link, the pre-copy hook
  writes nothing: it redirects the copy to the resolved real file, in the directory of
  the requested target under the name of the link's payload (the immediate target of
  the link), and records the triple (target, link payload, is-directory) in the
  deferred-link set.  Neither \<open>_copy_file\<close> nor \<open>_copy_file_recursion\<close> creates a
  link; a call of \<open>_copy_file\<close> on a link that returns has recorded the triple, and
  the redirected target was copied before, or is the real file itself, or receives the
  real file's bytes in this call.  In a freeze, the events are those of the copies, none of which creates a link,
  followed by link creations only, each for a recorded triple: every byte copy precedes
  every link creation, in whatever order the files were discovered.
\<close>

theorem deferred_symlinks:
  "(is_symlink e source \<and> pre_copy_hook e s source target = Inr (src', tgt', s1)
      \<longrightarrow> src' = resolve e source
          \<and> with_name target (name (readlink e source)) = Some tgt'
          \<and> name tgt' = name (readlink e source) \<and> parent tgt' = parent target
          \<and> (target, readlink e source, is_dir e (resolve e source)) \<in> set (symlinks s1)
          \<and> files_copied s1 = files_copied s \<and> trace s1 = trace s)
   \<and> (copy_file n pf e f s source target cdf im = Returned s2
      \<longrightarrow> (\<exists>evs. trace s2 = trace s @ evs \<and> no_links evs))
   \<and> (copy_file n pf e f s source target cdf im = Returned s2
        \<and> should_copy_file e f source \<and> is_symlink e source
        \<and> pre_copy_hook e s source target = Inr (src', tgt', s1)
      \<longrightarrow> (target, readlink e source, is_dir e (resolve e source)) \<in> set (symlinks s2)
          \<and> (tgt' \<in> set (files_copied s) \<or> resolve e source = tgt'
               \<or> CopyFile (resolve e source) tgt' \<in> set (trace s2)))
   \<and> (copy_file_recursion n e f s source target cdf im = Returned s2'
      \<longrightarrow> (\<exists>evs. trace s2' = trace s @ evs \<and> no_links evs))
   \<and> (freeze n pf e f requests s = Returned s3
      \<longrightarrow> (\<exists>s' copies links.
             copy_requests n pf e f requests s = Returned s'
             \<and> trace s3 = trace s @ copies @ links
             \<and> no_links copies \<and> only_links links
             \<and> set (linked links) \<subseteq> set (symlinks s')))"
proof (intro conjI impI)
  assume "copy_file n pf e f s source target cdf im = Returned s2"
  from copy_file_extends [OF this] show "\<exists>evs. trace s2 = trace s @ evs \<and> no_links evs"
    by (auto simp: extends_def)
next
  assume a: "copy_file n pf e f s source target cdf im = Returned s2
        \<and> should_copy_file e f source \<and> is_symlink e source
        \<and> pre_copy_hook e s source target = Inr (src', tgt', s1)"
  then have c: "copy_file n pf e f s source target cdf im = Returned s2"
    and sl: "is_symlink e source" and pre: "pre_copy_hook e s source target = Inr (src', tgt', s1)"
    and sc: "should_copy_file e f source"
    by simp_all
  note ps = pre_copy_hook_symlink [OF sl pre]
  have sub: "set (symlinks s1) \<subseteq> set (symlinks s2)"
    using c
  proof (cases rule: copy_file_cases)
    case skipped
    with sc show ?thesis by simp
  next
    case (noop a b)
    with pre show ?thesis by simp
  next
    case (copied a b s1')
    with pre show ?thesis by (simp add: extends_def)
  qed
  with ps show "(target, readlink e source, is_dir e (resolve e source)) \<in> set (symlinks s2)"
    by blast
  show "tgt' \<in> set (files_copied s) \<or> resolve e source = tgt'
               \<or> CopyFile (resolve e source) tgt' \<in> set (trace s2)"
    using c
  proof (cases rule: copy_file_cases)
    case skipped
    with sc show ?thesis by simp
  next
    case (noop a b)
    with pre ps show ?thesis by auto
  next
    case (copied a b s1')
    with pre ps show ?thesis by auto
  qed
next
  assume "copy_file_recursion n e f s source target cdf im = Returned s2'"
  from copy_file_recursion_extends [OF this] show "\<exists>evs. trace s2' = trace s @ evs \<and> no_links evs"
    by (auto simp: extends_def)
next
  assume "freeze n pf e f requests s = Returned s3"
  from freeze_trace [OF this]
  show "\<exists>s' copies links.
             copy_requests n pf e f requests s = Returned s'
             \<and> trace s3 = trace s @ copies @ links
             \<and> no_links copies \<and> only_links links
             \<and> set (linked links) \<subseteq> set (symlinks s')" .
qed (use pre_copy_hook_symlink [of e source s target src' tgt' s1] in blast)+

lemma libz_pre:
  "pre_copy_hook link_env empty_state
     (Path ''/'' [''usr'', ''lib'', ''libz.so'']) (Path ''/'' [''build'', ''lib'', ''libz.so''])
   = Inr (Path ''/'' [''usr'', ''lib'', ''libz.so.1.3''],
          Path ''/'' [''build'', ''lib'', ''libz.so.1''],
          empty_state\<lparr>symlinks :=
            [(Path ''/'' [''build'', ''lib'', ''libz.so''], Path [] [''libz.so.1''], False)]\<rparr>)"
  by (simp add: pre_copy_hook_def link_env_def posix_env_def empty_state_def with_name_def
      name_def set_add_def)

lemma libz_copy:
  "copy_file (Suc 0) Linux link_env plain_freezer empty_state
     (Path ''/'' [''usr'', ''lib'', ''libz.so'']) (Path ''/'' [''build'', ''lib'', ''libz.so'']) False False
   = Returned (libz_linked\<lparr>trace := libz_trace\<rparr>)"
  by code_simp

lemma libz_copy_recursion:
  "copy_file_recursion (Suc 0) link_env plain_freezer empty_state
     (Path ''/'' [''usr'', ''lib'', ''libz.so'']) (Path ''/'' [''build'', ''lib'', ''libz.so'']) False False
   = Returned (libz_linked\<lparr>trace := libz_trace\<rparr>)"
  by code_simp

lemma libz_freeze:
  "freeze (Suc 0) Linux link_env plain_freezer
     [CopyRequest (Path ''/'' [''usr'', ''lib'', ''libz.so'']) (Path ''/'' [''build'', ''lib'', ''libz.so'']) False False]
     empty_state
   = Returned (libz_linked\<lparr>trace := libz_trace @
        [SymlinkTo (Path ''/'' [''build'', ''lib'', ''libz.so'']) (Path [] [''libz.so.1'']) False]\<rparr>)"
  by code_simp

theorem deferred_symlinks_witness:
  "is_symlink link_env (Path ''/'' [''usr'', ''lib'', ''libz.so''])
   \<and> (Path ''/'' [''build'', ''lib'', ''libz.so''], Path [] [''libz.so.1''], False)
       \<in> set (symlinks (empty_state\<lparr>symlinks :=
            [(Path ''/'' [''build'', ''lib'', ''libz.so''], Path [] [''libz.so.1''], False)]\<rparr>))
   \<and> (\<exists>evs. trace (libz_linked\<lparr>trace := libz_trace\<rparr>) = trace empty_state @ evs \<and> no_links evs)
   \<and> CopyFile (Path ''/'' [''usr'', ''lib'', ''libz.so.1.3''])
         (Path ''/'' [''build'', ''lib'', ''libz.so.1''])
       \<in> set (trace (libz_linked\<lparr>trace := libz_trace\<rparr>))
   \<and> (\<exists>s' copies links.
         copy_requests (Suc 0) Linux link_env plain_freezer
           [CopyRequest (Path ''/'' [''usr'', ''lib'', ''libz.so''])
              (Path ''/'' [''build'', ''lib'', ''libz.so'']) False False] empty_state = Returned s'
         \<and> trace (libz_linked\<lparr>trace := libz_trace @
              [SymlinkTo (Path ''/'' [''build'', ''lib'', ''libz.so'']) (Path [] [''libz.so.1'']) False]\<rparr>)
             = trace empty_state @ copies @ links
         \<and> no_links copies \<and> only_links links \<and> set (linked links) \<subseteq> set (symlinks s'))"
proof -
  have sl: "is_symlink link_env (Path ''/'' [''usr'', ''lib'', ''libz.so''])"
    by (simp add: link_env_def posix_env_def)
  note t = deferred_symlinks [of link_env "Path ''/'' [''usr'', ''lib'', ''libz.so'']" empty_state
      "Path ''/'' [''build'', ''lib'', ''libz.so'']"
      "Path ''/'' [''usr'', ''lib'', ''libz.so.1.3'']" "Path ''/'' [''build'', ''lib'', ''libz.so.1'']"
      "empty_state\<lparr>symlinks := [(Path ''/'' [''build'', ''lib'', ''libz.so''], Path [] [''libz.so.1''], False)]\<rparr>"
      "Suc 0" Linux plain_freezer False False "libz_linked\<lparr>trace := libz_trace\<rparr>"
      "libz_linked\<lparr>trace := libz_trace\<rparr>"
      "[CopyRequest (Path ''/'' [''usr'', ''lib'', ''libz.so'']) (Path ''/'' [''build'', ''lib'', ''libz.so'']) False False]"
      "libz_linked\<lparr>trace := libz_trace @
        [SymlinkTo (Path ''/'' [''build'', ''lib'', ''libz.so'']) (Path [] [''libz.so.1'']) False]\<rparr>"]
  have rd: "readlink link_env (Path ''/'' [''usr'', ''lib'', ''libz.so'']) = Path [] [''libz.so.1'']"
    "is_dir link_env (resolve link_env (Path ''/'' [''usr'', ''lib'', ''libz.so''])) = False"
    by (simp_all add: link_env_def posix_env_def)
  have sc: "should_copy_file link_env plain_freezer (Path ''/'' [''usr'', ''lib'', ''libz.so''])"
    by code_simp
  have nc: "Path ''/'' [''build'', ''lib'', ''libz.so.1''] \<notin> set (files_copied empty_state)"
    "resolve link_env (Path ''/'' [''usr'', ''lib'', ''libz.so''])
       = Path ''/'' [''usr'', ''lib'', ''libz.so.1.3'']"
    "Path ''/'' [''usr'', ''lib'', ''libz.so.1.3''] \<noteq> Path ''/'' [''build'', ''lib'', ''libz.so.1'']"
    by (simp_all add: empty_state_def link_env_def posix_env_def)
  from t sl sc nc libz_pre libz_copy libz_copy_recursion libz_freeze show ?thesis
    unfolding rd by metis
qed

section \<open>Failure to copy metadata\<close>

text \<open>
  With \<open>include_mode\<close> (as for the executables) the metadata calls are unguarded: the
  byte copy succeeds and the failing \<open>copystat\<close> ends the call with \<open>OSError\<close>.
\<close>

theorem metadata_failure_include_mode_counterexample:
  "copyfile_ok nostat_env (Path ''/'' [''src'', ''app'']) (Path ''/'' [''build'', ''app''])
   \<and> copy_file (Suc 0) Linux nostat_env plain_freezer empty_state
        (Path ''/'' [''src'', ''app'']) (Path ''/'' [''build'', ''app'']) True True
      = Raised OSError"
  by code_simp

text \<open>\<open>_copy_file_recursion\<close> has no guard either.\<close>

lemma darwin_metadata_failure:
  "copy_file_recursion (Suc 0) nostat_env plain_freezer empty_state
        (Path ''/'' [''src'', ''app'']) (Path ''/'' [''build'', ''app'']) True False
      = Raised OSError"
  by code_simp

text \<open>
  Claim C8, as amended.  In a call of \<open>_copy_file\<close> without \<open>include_mode\<close> whose
  byte copy succeeds, a failing \<open>copystat\<close> does not end the call: the warning is
  printed when \<open>silent < 3\<close>, the target is recorded in the copied-file set, and the
  call continues with the post-copy hook, whose result is the result of the call (the
  recorded state itself when no dependent files are to be copied).
\<close>

theorem metadata_failure_not_fatal:
  assumes "should_copy_file e f source"
    and "pre_copy_hook e s source target = Inr (src', tgt', s1)"
    and "tgt' \<notin> set (files_copied s1)" and "src' \<noteq> tgt'"
    and "mkdir_ok e (parent tgt')" and "copyfile_ok e src' tgt'"
    and "\<not> copystat_ok e src' tgt'"
    and "s4 = s1\<lparr>trace := trace s1 @ [CreateDirectory (parent tgt'), CopyFile src' tgt']
                             @ (if silent f < 3 then [WarnMetadata tgt'] else []),
                  files_copied := set_add tgt' (files_copied s1)\<rparr>"
  shows "copy_file (Suc n) pf e f s source target cdf False
           = post_copy_hook pf (\<lambda>st src tgt cdf. copy_file n pf e f st src tgt cdf False)
               (\<lambda>st src tgt cdf. copy_file_recursion n e f st src tgt cdf False)
               e f s4 src' tgt' cdf
         \<and> tgt' \<in> set (files_copied s4)
         \<and> (\<not> cdf \<longrightarrow> copy_file (Suc n) pf e f s source target cdf False = Returned s4)"
proof -
  have md: "copy_metadata e f (emit (CopyFile src' tgt') (emit (CreateDirectory (parent tgt')) s1))
              src' tgt' False
            = Inr (s1\<lparr>trace := trace s1 @ [CreateDirectory (parent tgt'), CopyFile src' tgt']
                             @ (if silent f < 3 then [WarnMetadata tgt'] else [])\<rparr>)"
    using assms(7) by (simp add: copy_metadata_def emit_def)
  have eq: "copy_file (Suc n) pf e f s source target cdf False
           = post_copy_hook pf (\<lambda>st src tgt cdf. copy_file n pf e f st src tgt cdf False)
               (\<lambda>st src tgt cdf. copy_file_recursion n e f st src tgt cdf False)
               e f s4 src' tgt' cdf"
    using assms(1-6) md by (simp add: assms(8))
  have nd: "post_copy_hook pf c cr e f s4 src' tgt' False = Returned s4" for c cr
    by (cases pf) (simp_all add: post_copy_hook_def win_post_copy_hook_def
        linux_post_copy_hook_def darwin_post_copy_hook_def)
  have "tgt' \<in> set (files_copied s4)" by (simp add: assms(8) set_add_def)
  with eq nd show ?thesis by (auto simp del: copy_file.simps)
qed

theorem metadata_failure_not_fatal_witness:
  "copy_file (Suc 0) Linux nostat_env plain_freezer empty_state
     (Path ''/'' [''src'', ''app'']) (Path ''/'' [''build'', ''app'']) False False
   = Returned \<lparr>files_copied = [Path ''/'' [''build'', ''app'']], symlinks = [],
       trace = [CreateDirectory (Path ''/'' [''build'']),
                CopyFile (Path ''/'' [''src'', ''app'']) (Path ''/'' [''build'', ''app'']),
                WarnMetadata (Path ''/'' [''build'', ''app''])]\<rparr>"
proof -
  let ?src = "Path ''/'' [''src'', ''app'']" and ?tgt = "Path ''/'' [''build'', ''app'']"
  let ?s4 = "\<lparr>files_copied = [?tgt], symlinks = [],
       trace = [CreateDirectory (Path ''/'' [''build'']), CopyFile ?src ?tgt, WarnMetadata ?tgt]\<rparr>"
  have 1: "should_copy_file nostat_env plain_freezer ?src" by code_simp
  have 2: "pre_copy_hook nostat_env empty_state ?src ?tgt = Inr (?src, ?tgt, empty_state)"
    by (simp add: pre_copy_hook_def nostat_env_def posix_env_def)
  have 3: "?tgt \<notin> set (files_copied empty_state)" by (simp add: empty_state_def)
  have 4: "?src \<noteq> ?tgt" by simp
  have 5: "mkdir_ok nostat_env (parent ?tgt)" "copyfile_ok nostat_env ?src ?tgt"
    "\<not> copystat_ok nostat_env ?src ?tgt"
    by (simp_all add: nostat_env_def posix_env_def)
  have 6: "?s4 = empty_state\<lparr>trace := trace empty_state @ [CreateDirectory (parent ?tgt), CopyFile ?src ?tgt]
                             @ (if silent plain_freezer < 3 then [WarnMetadata ?tgt] else []),
                  files_copied := set_add ?tgt (files_copied empty_state)\<rparr>"
    by (simp add: empty_state_def plain_freezer_def set_add_def parent_def)
  from metadata_failure_not_fatal [OF 1 2 3 4 5 6, of 0 Linux False] show ?thesis by blast
qed

section \<open>Where dependent files are placed\<close>













section \<open>The layout of a bytecode file\<close>

lemma and_mask32: "(v::int) AND 0xFFFFFFFF = v mod 2 ^ 32"
proof -
  have "(0xFFFFFFFF::int) = mask 32" by (simp add: mask_eq_exp_minus_1)
  then have "v AND 0xFFFFFFFF = take_bit 32 v" by (simp only: take_bit_eq_mask)
  then show ?thesis by (simp only: take_bit_eq_mod)
qed

lemma pack_masked:
  "struct_pack_iLL 0 (a AND 0xFFFFFFFF) (b AND 0xFFFFFFFF)
     = Inr (uint32_le 0 @ uint32_le (a mod 2 ^ 32) @ uint32_le (b mod 2 ^ 32))"
proof -
  have "0 \<le> a mod 2 ^ 32" "a mod 2 ^ 32 < 2 ^ 32" "0 \<le> b mod 2 ^ 32" "b mod 2 ^ 32 < 2 ^ 32"
    by simp_all
  then show ?thesis
    unfolding struct_pack_iLL_def and_mask32 by (simp add: not_less not_le)
qed

lemma uint32_le_bytes:
  "uint32_le v = [word_of_int v, word_of_int (v div 2 ^ 8), word_of_int (v div 2 ^ 16), word_of_int (v div 2 ^ 24)]"
  by (simp add: uint32_le_def drop_bit_eq_div)

text \<open>
  Claim C5.  For a module with a code object, the data written for it are the
  interpreter's magic number, a field of twelve bytes made of the flags (zero), the
  modification time and the size, each as four bytes in little-endian order, and the
  marshalled code.  Modification time and size are those of the source file's stat
  data reduced modulo \<open>2^32\<close> when the source file exists; otherwise the time is the
  current time modulo \<open>2^32\<close> and the size is zero.  Packing never fails.  With a
  magic number of four bytes the payload starts at offset 16.
\<close>

theorem pyc_data_layout:
  assumes "mcode m = Some c"
  shows "\<exists>mtime size data.
           (mtime, size) = (case (case mfile m of None \<Rightarrow> None | Some p \<Rightarrow> stat p) of
                              Some (st_mtime, st_size) \<Rightarrow> (st_mtime mod 2 ^ 32, st_size mod 2 ^ 32)
                            | None \<Rightarrow> (now mod 2 ^ 32, 0))
           \<and> pyc_data magic marshal_dumps stat now m = Some (Inr data)
           \<and> data = magic @ [0, 0, 0, 0]
                     @ [word_of_int mtime, word_of_int (mtime div 2 ^ 8),
                        word_of_int (mtime div 2 ^ 16), word_of_int (mtime div 2 ^ 24)]
                     @ [word_of_int size, word_of_int (size div 2 ^ 8),
                        word_of_int (size div 2 ^ 16), word_of_int (size div 2 ^ 24)]
                     @ marshal_dumps c
           \<and> (length magic = 4 \<longrightarrow>
                 take 4 data = magic \<and> length (take 12 (drop 4 data)) = 12
                 \<and> drop 16 data = marshal_dumps c)"
proof (cases "case mfile m of None \<Rightarrow> None | Some p \<Rightarrow> stat p")
  case None
  have "struct_pack_iLL 0 (now AND 0xFFFFFFFF) 0
     = Inr (uint32_le 0 @ uint32_le (now mod 2 ^ 32) @ uint32_le 0)"
    using pack_masked [of now 0] by simp
  with None assms show ?thesis
    by (simp add: pyc_data_def uint32_le_bytes)
next
  case (Some st)
  obtain a b where st: "st = (a, b)" by (cases st)
  with Some assms pack_masked [of a b] show ?thesis
    by (simp add: pyc_data_def uint32_le_bytes)
qed

theorem pyc_data_layout_witness:
  "pyc_data [1, 2, 3, 4] (\<lambda>c. [9]) (\<lambda>p. Some (0x12345678, 258)) 7
     \<lparr>mfile = Some (Path ''/'' [''src'', ''m.py'']), mcode = Some ()\<rparr>
   = Some (Inr [1, 2, 3, 4, 0, 0, 0, 0, 0x78, 0x56, 0x34, 0x12, 2, 1, 0, 0, 9])"
proof -
  have h: "mcode \<lparr>mfile = Some (Path ''/'' [''src'', ''m.py'']), mcode = Some ()\<rparr> = Some ()"
    by simp
  from pyc_data_layout [OF h, where stat = "\<lambda>p. Some (0x12345678, 258)" and now = 7
      and magic = "[1, 2, 3, 4]" and marshal_dumps = "\<lambda>c. [9]"]
  show ?thesis by auto
qed

section \<open>Configuration errors\<close>





section \<open>The search path of the process is restored\<close>

lemma copy_extension_loop_environ:
  assumes "environ ''PATH'' = Some orig_path"
    and "copy_extension_loop n pf e f pathsep orig_path files_to_copy environ s = (environ', r)"
    and "r \<noteq> OutOfFuel"
  shows "environ' = environ"
  using assms
proof (induction files_to_copy arbitrary: environ s)
  case Nil
  then show ?case by simp
next
  case (Cons x xs)
  obtain m target where x: "x = (m, target)" by (cases x)
  define environ1 where "environ1 =
     (case parent_path m of
        Some parent_dirs \<Rightarrow> environ(''PATH'' \<mapsto> join_with pathsep (orig_path # parent_dirs))
      | None \<Rightarrow> environ)"
  have restore: "environ1(''PATH'' \<mapsto> orig_path) = environ"
    using Cons.prems(1) by (auto simp: environ1_def split: option.splits)
  show ?case
  proof (cases "copy_file n pf e f s (module_file m) target True False")
    case (Returned s')
    with Cons.prems(2) x restore
    have "copy_extension_loop n pf e f pathsep orig_path xs environ s' = (environ', r)"
      by (simp add: environ1_def [symmetric] Let_def)
    from Cons.IH [OF Cons.prems(1) this Cons.prems(3)] show ?thesis .
  next
    case (Raised ex)
    with Cons.prems(2) x restore show ?thesis
      by (simp add: environ1_def [symmetric] Let_def)
  next
    case OutOfFuel
    with Cons.prems(2,3) x show ?thesis
      by (simp add: environ1_def [symmetric] Let_def)
  qed
qed

text \<open>
  Claim C10.  Whenever the loop over the extension modules at the end of
  \<open>_write_modules\<close> finishes, by returning or by an exception of a copy (or the
  \<open>KeyError\<close> of an unset \<open>PATH\<close>), the environment of the process is what it was
  before the loop: \<open>PATH\<close> has its original value and no other variable has changed.
\<close>

theorem extension_copy_restores_environ:
  assumes "copy_extension_modules n pf e f pathsep files_to_copy environ s = (environ', r)"
    and "r \<noteq> OutOfFuel"
  shows "environ' = environ"
proof (cases "environ ''PATH''")
  case None
  with assms show ?thesis by (simp add: copy_extension_modules_def)
next
  case (Some orig_path)
  with assms(1) have "copy_extension_loop n pf e f pathsep orig_path files_to_copy environ s = (environ', r)"
    by (simp add: copy_extension_modules_def)
  from copy_extension_loop_environ [OF Some this assms(2)] show ?thesis .
qed

lemma ext_returns:
  "snd (copy_extension_modules (Suc 0) Linux posix_env plain_freezer '':'' ext_files
          [''PATH'' \<mapsto> ''/bin''] empty_state)
   = Returned \<lparr>files_copied = [Path ''/'' [''build'', ''lib'', ''pkg.ext.so'']], symlinks = [],
       trace = [CreateDirectory (Path ''/'' [''build'', ''lib'']),
                CopyFile (Path ''/'' [''src'', ''pkg'', ''ext.so'']) (Path ''/'' [''build'', ''lib'', ''pkg.ext.so'']),
                CopyStat (Path ''/'' [''src'', ''pkg'', ''ext.so'']) (Path ''/'' [''build'', ''lib'', ''pkg.ext.so''])]\<rparr>"
proof -
  have c: "copy_file (Suc 0) Linux posix_env plain_freezer empty_state
             (Path ''/'' [''src'', ''pkg'', ''ext.so'']) (Path ''/'' [''build'', ''lib'', ''pkg.ext.so'']) True False
           = Returned \<lparr>files_copied = [Path ''/'' [''build'', ''lib'', ''pkg.ext.so'']], symlinks = [],
       trace = [CreateDirectory (Path ''/'' [''build'', ''lib'']),
                CopyFile (Path ''/'' [''src'', ''pkg'', ''ext.so'']) (Path ''/'' [''build'', ''lib'', ''pkg.ext.so'']),
                CopyStat (Path ''/'' [''src'', ''pkg'', ''ext.so'']) (Path ''/'' [''build'', ''lib'', ''pkg.ext.so''])]\<rparr>"
    by code_simp
  show ?thesis
    by (simp add: copy_extension_modules_def ext_files_def c del: copy_file.simps)
qed

theorem extension_copy_restores_environ_witness:
  "snd (copy_extension_modules (Suc 0) Linux posix_env plain_freezer '':'' ext_files
          [''PATH'' \<mapsto> ''/bin''] empty_state) \<noteq> OutOfFuel
   \<and> fst (copy_extension_modules (Suc 0) Linux posix_env plain_freezer '':'' ext_files
          [''PATH'' \<mapsto> ''/bin''] empty_state) = [''PATH'' \<mapsto> ''/bin'']"
proof -
  have h: "snd (copy_extension_modules (Suc 0) Linux posix_env plain_freezer '':'' ext_files
          [''PATH'' \<mapsto> ''/bin''] empty_state) \<noteq> OutOfFuel"
    by (simp add: ext_returns)
  from extension_copy_restores_environ [OF prod.collapse [symmetric] h] h show ?thesis by blast
qed

section \<open>Extracting or keeping the archive\<close>

lemma extractall_simps:
  "extractall dir [] files = files"
  "extractall dir ((m, c) # xs) files = extractall dir xs (files(member_target dir m \<mapsto> Bytes c))"
  by (simp_all add: extractall_def)

lemma extractall_frame:
  "p \<notin> (\<lambda>(m, c). member_target dir m) ` set members \<Longrightarrow> extractall dir members files p = files p"
  by (induction members arbitrary: files) (auto simp: extractall_simps)

lemma extractall_member:
  assumes "distinct (map (\<lambda>(m, c). member_target dir m) members)" "(m, c) \<in> set members"
  shows "extractall dir members files (member_target dir m) = Some (Bytes c)"
  using assms
proof (induction members arbitrary: files)
  case Nil
  then show ?case by simp
next
  case (Cons x xs)
  obtain m' c' where x: "x = (m', c')" by (cases x)
  show ?case
  proof (cases "(m, c) \<in> set xs")
    case True
    with Cons x show ?thesis by (simp add: extractall_simps)
  next
    case False
    with Cons.prems x have eq: "m' = m" "c' = c" by auto
    from Cons.prems(1) x eq have "member_target dir m \<notin> (\<lambda>(m, c). member_target dir m) ` set xs"
      by auto
    from extractall_frame [OF this] x eq show ?thesis by (simp add: extractall_simps)
  qed
qed


lemma join_str_name: "CHR ''/'' \<notin> set nm \<Longrightarrow> nm \<noteq> [] \<Longrightarrow> nm \<noteq> ''.'' \<Longrightarrow>
   join_str p nm = Path (root p) (segs p @ [nm])"
proof -
  assume a: "CHR ''/'' \<notin> set nm" "nm \<noteq> []" "nm \<noteq> ''.''"
  have "split_on CHR ''/'' nm = [nm]" using a(1)
    by (induction nm) (auto split: list.splits)
  moreover have "parse_root nm = []" using a(1) by (cases nm) (auto simp: parse_root_def)
  ultimately show ?thesis using a(2,3) by (simp add: join_str_def joinpath_def parse_path_def)
qed

lemma library_zip_path:
  "join_str lib ''library.zip'' = Path (root lib) (segs lib @ [''library.zip''])"
  "join_str lib ''library.dat'' = Path (root lib) (segs lib @ [''library.dat''])"
  by (simp_all add: join_str_name)

lemma library_zip_parent: "parent (join_str lib ''library.zip'') = lib"
  by (simp add: library_zip_path parent_def)

text \<open>
  Claim C9.  When no archive was requested (\<open>zip_filename\<close> is \<open>None\<close>) the archive
  \<open>lib/library.zip\<close> is extracted into the \<open>lib\<close> directory (every member is written
  below it; nothing else changes) and the archive file is deleted.  Otherwise the
  archive is kept, under the requested name when that differs from \<open>library.zip\<close>,
  and the file \<open>lib/library.dat\<close> is written with the archive's file name as its
  whole content.
\<close>

theorem write_modules_finish_result:
  "(zip_filename f = None
      \<and> files (join_str (join_str (target_dir f) ''lib'') ''library.zip'') = Some (Zip members)
    \<longrightarrow> (\<exists>files'. write_modules_finish f files = Inr files'
           \<and> files' (join_str (join_str (target_dir f) ''lib'') ''library.zip'') = None
           \<and> (distinct (map (\<lambda>(m, c). member_target (join_str (target_dir f) ''lib'') m) members)
                \<longrightarrow> (\<forall>(m, c) \<in> set members.
                       member_target (join_str (target_dir f) ''lib'') m
                         \<noteq> join_str (join_str (target_dir f) ''lib'') ''library.zip''
                       \<longrightarrow> files' (member_target (join_str (target_dir f) ''lib'') m)
                             = Some (Bytes c)))
           \<and> (\<forall>p. p \<noteq> join_str (join_str (target_dir f) ''lib'') ''library.zip''
                  \<and> p \<notin> (\<lambda>(m, c). member_target (join_str (target_dir f) ''lib'') m) ` set members
                  \<longrightarrow> files' p = files p)))
   \<and> (zip_filename f = Some z
      \<and> files (join_str (join_str (target_dir f) ''lib'') ''library.zip'') = Some archive
    \<longrightarrow> (\<exists>files'. write_modules_finish f files = Inr files'
           \<and> files' (join_str (join_str (target_dir f) ''lib'') ''library.dat'')
               = Some (Bytes (name z))
           \<and> (name z = ''library.zip''
                \<longrightarrow> files' (join_str (join_str (target_dir f) ''lib'') ''library.zip'')
                      = Some archive)
           \<and> (name z \<noteq> ''library.zip''
                  \<and> z \<noteq> join_str (join_str (target_dir f) ''lib'') ''library.dat''
                \<longrightarrow> files' z = Some archive
                    \<and> files' (join_str (join_str (target_dir f) ''lib'') ''library.zip'') = None)))"
proof (intro conjI impI)
  let ?lib = "join_str (target_dir f) ''lib''"
  let ?zip = "join_str ?lib ''library.zip''"
  let ?dat = "join_str ?lib ''library.dat''"
  assume a: "zip_filename f = None \<and> files ?zip = Some (Zip members)"
  let ?files' = "(extractall ?lib members files)(?zip := None)"
  have r: "write_modules_finish f files = Inr ?files'"
    using a by (simp add: write_modules_finish_def Let_def library_zip_parent)
  have 1: "?files' ?zip = None" by simp
  have 2: "distinct (map (\<lambda>(m, c). member_target ?lib m) members)
           \<longrightarrow> (\<forall>(m, c) \<in> set members. member_target ?lib m \<noteq> ?zip
                 \<longrightarrow> ?files' (member_target ?lib m) = Some (Bytes c))"
    by (auto simp: extractall_member)
  have 3: "\<forall>p. p \<noteq> ?zip \<and> p \<notin> (\<lambda>(m, c). member_target ?lib m) ` set members
             \<longrightarrow> ?files' p = files p"
    by (auto simp: extractall_frame)
  from r 1 2 3
  show "\<exists>files'. write_modules_finish f files = Inr files' \<and> files' ?zip = None
         \<and> (distinct (map (\<lambda>(m, c). member_target ?lib m) members)
              \<longrightarrow> (\<forall>(m, c) \<in> set members. member_target ?lib m \<noteq> ?zip
                    \<longrightarrow> files' (member_target ?lib m) = Some (Bytes c)))
         \<and> (\<forall>p. p \<noteq> ?zip \<and> p \<notin> (\<lambda>(m, c). member_target ?lib m) ` set members
                \<longrightarrow> files' p = files p)"
    by blast
next
  let ?lib = "join_str (target_dir f) ''lib''"
  let ?zip = "join_str ?lib ''library.zip''"
  let ?dat = "join_str ?lib ''library.dat''"
  assume a: "zip_filename f = Some z \<and> files ?zip = Some archive"
  have nz: "name ?zip = ''library.zip''" by (simp add: library_zip_path name_def)
  have ne: "?dat \<noteq> ?zip" by (simp add: library_zip_path)
  show "\<exists>files'. write_modules_finish f files = Inr files'
           \<and> files' ?dat = Some (Bytes (name z))
           \<and> (name z = ''library.zip'' \<longrightarrow> files' ?zip = Some archive)
           \<and> (name z \<noteq> ''library.zip'' \<and> z \<noteq> ?dat
                \<longrightarrow> files' z = Some archive \<and> files' ?zip = None)"
  proof (cases "name z = ''library.zip''")
    case True
    with a nz ne show ?thesis
      by (simp add: write_modules_finish_def Let_def)
  next
    case False
    then have "z \<noteq> ?zip" using nz by auto
    with False a nz ne show ?thesis
      by (auto simp: write_modules_finish_def Let_def)
  qed
qed

theorem write_modules_finish_result_witness:
  "(\<exists>files'. write_modules_finish (plain_freezer\<lparr>zip_filename := None\<rparr>) built_files = Inr files'
      \<and> files' (Path ''/'' [''build'', ''lib'', ''library.zip'']) = None
      \<and> files' (Path ''/'' [''build'', ''lib'', ''pkg'', ''m.pyc'']) = Some (Bytes ''code''))
   \<and> (\<exists>files'. write_modules_finish plain_freezer built_files = Inr files'
      \<and> files' (Path ''/'' [''build'', ''lib'', ''library.dat'']) = Some (Bytes ''library.zip'')
      \<and> files' (Path ''/'' [''build'', ''lib'', ''library.zip''])
           = Some (Zip [(''pkg/m.pyc'', ''code'')]))
   \<and> (\<exists>files'. write_modules_finish
                  (plain_freezer\<lparr>zip_filename := Some (Path ''/'' [''build'', ''lib'', ''app.zip''])\<rparr>)
                  built_files = Inr files'
      \<and> files' (Path ''/'' [''build'', ''lib'', ''library.dat'']) = Some (Bytes ''app.zip'')
      \<and> files' (Path ''/'' [''build'', ''lib'', ''app.zip'']) = Some (Zip [(''pkg/m.pyc'', ''code'')])
      \<and> files' (Path ''/'' [''build'', ''lib'', ''library.zip'']) = None)"
proof -
  let ?f1 = "plain_freezer\<lparr>zip_filename := None\<rparr>"
  let ?f3 = "plain_freezer\<lparr>zip_filename := Some (Path ''/'' [''build'', ''lib'', ''app.zip''])\<rparr>"
  let ?members = "[(''pkg/m.pyc'', ''code'')]"
  have p: "join_str (join_str (target_dir plain_freezer) ''lib'') ''library.zip''
             = Path ''/'' [''build'', ''lib'', ''library.zip'']"
    "join_str (join_str (target_dir plain_freezer) ''lib'') ''library.dat''
             = Path ''/'' [''build'', ''lib'', ''library.dat'']"
    "member_target (join_str (target_dir plain_freezer) ''lib'') ''pkg/m.pyc''
             = Path ''/'' [''build'', ''lib'', ''pkg'', ''m.pyc'']"
    by code_simp+
  have td: "target_dir ?f1 = target_dir plain_freezer" "target_dir ?f3 = target_dir plain_freezer"
    by simp_all
  have b: "built_files (Path ''/'' [''build'', ''lib'', ''library.zip'']) = Some (Zip ?members)"
    by (simp add: built_files_def)
  have z: "zip_filename ?f1 = None"
    "zip_filename plain_freezer = Some (Path ''/'' [''build'', ''lib'', ''library.zip''])"
    "zip_filename ?f3 = Some (Path ''/'' [''build'', ''lib'', ''app.zip''])"
    by (simp_all add: plain_freezer_def)
  have n: "name (Path ''/'' [''build'', ''lib'', ''library.zip'']) = ''library.zip''"
    "name (Path ''/'' [''build'', ''lib'', ''app.zip'']) = ''app.zip''"
    by (simp_all add: name_def)
  from write_modules_finish_result [where f = ?f1 and files = built_files and members = ?members]
  have c1: "\<exists>files'. write_modules_finish ?f1 built_files = Inr files'
      \<and> files' (Path ''/'' [''build'', ''lib'', ''library.zip'']) = None
      \<and> files' (Path ''/'' [''build'', ''lib'', ''pkg'', ''m.pyc'']) = Some (Bytes ''code'')"
    using z(1) b by (auto simp: td p)
  from write_modules_finish_result [where f = plain_freezer and files = built_files
      and z = "Path ''/'' [''build'', ''lib'', ''library.zip'']" and archive = "Zip ?members"]
  have c2: "\<exists>files'. write_modules_finish plain_freezer built_files = Inr files'
      \<and> files' (Path ''/'' [''build'', ''lib'', ''library.dat'']) = Some (Bytes ''library.zip'')
      \<and> files' (Path ''/'' [''build'', ''lib'', ''library.zip'']) = Some (Zip ?members)"
    using z(2) b n(1) by (auto simp: p)
  from write_modules_finish_result [where f = ?f3 and files = built_files
      and z = "Path ''/'' [''build'', ''lib'', ''app.zip'']" and archive = "Zip ?members"]
  have c3: "\<exists>files'. write_modules_finish ?f3 built_files = Inr files'
      \<and> files' (Path ''/'' [''build'', ''lib'', ''library.dat'']) = Some (Bytes ''app.zip'')
      \<and> files' (Path ''/'' [''build'', ''lib'', ''app.zip'']) = Some (Zip ?members)
      \<and> files' (Path ''/'' [''build'', ''lib'', ''library.zip'']) = None"
    using z(3) b n(2) by (auto simp: td p)
  from c1 c2 c3 show ?thesis by blast
qed

end
